theory Spec2Isabelle
  imports Main "HOL-Library.Word"
begin

unbundle bit_operations_syntax

section \<open>RouterOS API wire protocol: encoder\<close>

text \<open>
  A \<open>Buffer\<close> is a list of bytes. A JavaScript string is represented by the list of
  its UTF-8 bytes (an Isabelle \<open>char\<close> is one byte), which determines a well-formed
  string uniquely; \<open>Buffer.from(word, "utf8")\<close> and \<open>buf.toString("utf8")\<close> are the
  two directions of that representation, and \<open>body.length\<close> is the byte count.
  For ASCII text one \<open>char\<close> is also one UTF-16 code unit, the unit of
  \<open>indexOf\<close>, \<open>slice\<close> and \<open>startsWith\<close>.
\<close>

type_synonym byte = "8 word"
type_synonym buffer = "byte list"

definition utf8_bytes :: "string \<Rightarrow> buffer" where
  "utf8_bytes w = map (\<lambda>c. of_nat (of_char c)) w"

definition utf8_string :: "buffer \<Rightarrow> string" where
  "utf8_string bs = map (\<lambda>b. char_of (unat b)) bs"

text \<open>
  \<open>encodeLength(len)\<close>. On a non-negative integer \<open>len\<close> the JavaScript expression
  \<open>(len >> k) & m\<close> (32-bit operands) has the value \<open>drop_bit k len AND m\<close> on
  naturals for the masks used here, also when \<open>len\<close> is \<open>2^31\<close> or more;
  \<open>Buffer.from([..])\<close> stores each number modulo 256.
\<close>

definition encodeLength :: "nat \<Rightarrow> buffer" where
  "encodeLength len =
    (if len < 0x80 then [of_nat len]
     else if len < 0x4000 then
       [of_nat ((drop_bit 8 len AND 0x3f) OR 0x80), of_nat (len AND 0xff)]
     else if len < 0x200000 then
       [of_nat ((drop_bit 16 len AND 0x1f) OR 0xc0),
        of_nat (drop_bit 8 len AND 0xff),
        of_nat (len AND 0xff)]
     else if len < 0x10000000 then
       [of_nat ((drop_bit 24 len AND 0x0f) OR 0xe0),
        of_nat (drop_bit 16 len AND 0xff),
        of_nat (drop_bit 8 len AND 0xff),
        of_nat (len AND 0xff)]
     else
       [0xf0,
        of_nat (drop_bit 24 len AND 0xff),
        of_nat (drop_bit 16 len AND 0xff),
        of_nat (drop_bit 8 len AND 0xff),
        of_nat (len AND 0xff)])"

definition encodeWord :: "string \<Rightarrow> buffer" where
  "encodeWord word = (let body = utf8_bytes word in encodeLength (length body) @ body)"

definition encodeSentence :: "string list \<Rightarrow> buffer" where
  "encodeSentence words = concat (map encodeWord words @ [[0x00]])"

section \<open>RouterOS API wire protocol: decoder\<close>

text \<open>
  The length prefix read at index \<open>i\<close> (with \<open>i < buf.length\<close>) inside the inner
  loop of \<open>decodePackets\<close>: \<open>Some (len, skip)\<close>, or \<open>None\<close> where the source
  leaves both loops by \<open>break outer\<close> because the prefix is not complete.
\<close>

definition readLength :: "buffer \<Rightarrow> nat \<Rightarrow> (nat \<times> nat) option" where
  "readLength buf i =
    (let b0 = buf ! i in
     if b0 AND 0xf0 = 0xf0 then
       (if i + 5 > length buf then None
        else Some (unat (buf ! (i + 1)) * 0x1000000
                   + push_bit 16 (unat (buf ! (i + 2)))
                   + push_bit 8 (unat (buf ! (i + 3)))
                   + unat (buf ! (i + 4)), 5))
     else if b0 AND 0xe0 = 0xe0 then
       (if i + 4 > length buf then None
        else Some (unat (b0 AND 0x0f) * 0x1000000
                   + push_bit 16 (unat (buf ! (i + 1)))
                   + push_bit 8 (unat (buf ! (i + 2)))
                   + unat (buf ! (i + 3)), 4))
     else if b0 AND 0xc0 = 0xc0 then
       (if i + 3 > length buf then None
        else Some (push_bit 16 (unat (b0 AND 0x1f))
                   + push_bit 8 (unat (buf ! (i + 1)))
                   + unat (buf ! (i + 2)), 3))
     else if b0 AND 0x80 = 0x80 then
       (if i + 2 > length buf then None
        else Some (push_bit 8 (unat (b0 AND 0x3f)) + unat (buf ! (i + 1)), 2))
     else Some (unat b0, 1))"

definition subarray :: "buffer \<Rightarrow> nat \<Rightarrow> nat \<Rightarrow> buffer" where
  "subarray buf a b = take (b - a) (drop a buf)"

lemma readLength_skip_pos: "readLength buf i = Some (len, skip) \<Longrightarrow> 0 < skip"
  by (auto simp: readLength_def Let_def split: if_splits)

text \<open>
  The two nested loops of \<open>decodePackets\<close>, with the index \<open>i\<close>, the words of the
  sentence being read and the sentences completed so far. Every \<open>break outer\<close>
  returns \<open>sentences\<close> and \<open>buf.subarray(i)\<close> for the current \<open>i\<close>; the sentence
  being read is a local of the outer loop's body and is not returned.
\<close>

function decodeLoop ::
  "buffer \<Rightarrow> nat \<Rightarrow> string list \<Rightarrow> string list list \<Rightarrow> string list list \<times> buffer" where
  "decodeLoop buf i sentence sentences =
    (if i \<ge> length buf then (sentences, drop i buf)
     else
       (case readLength buf i of
          None \<Rightarrow> (sentences, drop i buf)
        | Some (len, skip) \<Rightarrow>
            if len = 0 then
              (if i + skip < length buf
               then decodeLoop buf (i + skip) [] (sentences @ [sentence])
               else (sentences @ [sentence], drop (i + skip) buf))
            else if i + skip + len > length buf then (sentences, drop i buf)
            else decodeLoop buf (i + skip + len)
                   (sentence @ [utf8_string (subarray buf (i + skip) (i + skip + len))])
                   sentences))"
  by pat_completeness auto
termination
  by (relation "measure (\<lambda>(buf, i, sentence, sentences). length buf - i)")
     (auto dest: readLength_skip_pos)

definition decodePackets :: "buffer \<Rightarrow> string list list \<times> buffer" where
  "decodePackets buf =
    (if 0 < length buf then decodeLoop buf 0 [] [] else ([], drop 0 buf))"

declare decodeLoop.simps [simp del]


text \<open>The width of the prefix that the table of the wire format gives a length.\<close>

definition prefixLength :: "nat \<Rightarrow> nat" where
  "prefixLength L =
    (if L < 0x80 then 1 else if L < 0x4000 then 2 else if L < 0x200000 then 3
     else if L < 0x10000000 then 4 else 5)"

text \<open>A word the wire format can carry as a word: not empty, and its byte length fits
  the 32 bits of the widest prefix.\<close>

definition wordOk :: "string \<Rightarrow> bool" where
  "wordOk w = (w \<noteq> [] \<and> length w < 0x100000000)"

section \<open>The connection of \<open>rosConnect\<close>\<close>

text \<open>
  A row object maps attribute names to values. A pending request of the queue holds its
  two completion callbacks and its accumulator; the callbacks are represented by the
  number of the \<open>write\<close> call that created them, and every call of a \<open>resolve\<close> or
  \<open>reject\<close> is recorded, in order, in \<open>settled\<close>. An \<open>Error\<close> is represented by
  its message.
\<close>

type_synonym row = "string \<rightharpoonup> string"

datatype outcome = Resolved "row list" | Rejected string

record pending =
  pid :: nat
  accumulator :: "string list list"

datatype promise = Unsettled | Fulfilled | Failed string

record conn =
  buf :: buffer
  loggedIn :: bool
  destroyed :: bool
  queue :: "pending list"
  settled :: "(nat \<times> outcome) list"
  submitted :: nat
  login :: promise
  sockDestroyed :: bool
  sent :: "buffer list"
  onCloseCalls :: nat

record opts =
  host :: string
  port :: string
  user :: string
  password :: string
  useTls :: bool
  caFingerprint :: "string option"
  caCert :: "string option"

definition initial :: conn where
  "initial = \<lparr>buf = [], loggedIn = False, destroyed = False, queue = [], settled = [],
     submitted = 0, login = Unsettled, sockDestroyed = False, sent = [], onCloseCalls = 0\<rparr>"

text \<open>\<open>resolve(api)\<close> and \<open>reject(err)\<close> of the promise that \<open>rosConnect\<close> returns:
  only the first call settles it.\<close>

definition settlePromise :: "promise \<Rightarrow> promise \<Rightarrow> promise" where
  "settlePromise p v = (if p = Unsettled then v else p)"

definition destroyAll :: "conn \<Rightarrow> string \<Rightarrow> conn" where
  "destroyAll c err =
    (if destroyed c then c
     else c\<lparr>destroyed := True, sockDestroyed := True,
            settled := settled c @ map (\<lambda>item. (pid item, Rejected err)) (queue c),
            queue := []\<rparr>)"

definition startsWith :: "string \<Rightarrow> string \<Rightarrow> bool" where
  "startsWith w p = (take (length p) w = p)"

text \<open>\<open>ws.find((w) => w.startsWith("=message="))?.slice(9) ?? dflt\<close>\<close>

definition messageOf :: "string list \<Rightarrow> string \<Rightarrow> string" where
  "messageOf ws dflt =
    (case find (\<lambda>w. startsWith w ''=message='') ws of
       Some w \<Rightarrow> drop 9 w
     | None \<Rightarrow> dflt)"

primrec index_of :: "char \<Rightarrow> string \<Rightarrow> nat option" where
  "index_of c [] = None"
| "index_of c (x # xs) = (if x = c then Some 0 else map_option Suc (index_of c xs))"

text \<open>\<open>w.indexOf(c, from)\<close> for a one-character search string: \<open>-1\<close> when absent.\<close>

definition indexOf :: "string \<Rightarrow> char \<Rightarrow> nat \<Rightarrow> int" where
  "indexOf w c from =
    (case index_of c (drop from w) of None \<Rightarrow> - 1 | Some k \<Rightarrow> int (from + k))"

definition slice :: "string \<Rightarrow> nat \<Rightarrow> nat \<Rightarrow> string" where
  "slice w a b = take (b - a) (drop a w)"

text \<open>\<open>obj[k] = v\<close> on an object created by \<open>{}\<close>. Assigning a string to the key
  \<open>__proto__\<close> reaches the inherited setter, which ignores a value that is not an
  object: no property is created.\<close>

definition setProp :: "row \<Rightarrow> string \<Rightarrow> string \<Rightarrow> row" where
  "setProp obj k v = (if k = ''__proto__'' then obj else obj(k \<mapsto> v))"

definition parseWord :: "row \<Rightarrow> string \<Rightarrow> row" where
  "parseWord obj w =
    (let eq = indexOf w CHR ''='' 1
     in if eq > 0 then setProp obj (slice w 1 (nat eq)) (drop (nat eq + 1) w) else obj)"

definition parseRow :: "string list \<Rightarrow> row" where
  "parseRow s = foldl parseWord Map.empty (drop 1 s)"

definition isRe :: "string list \<Rightarrow> bool" where
  "isRe s = (case s of [] \<Rightarrow> False | t # _ \<Rightarrow> t = ''!re'')"

definition parseRows :: "string list list \<Rightarrow> row list" where
  "parseRows acc = map parseRow (filter isRe acc)"

text \<open>The body of the loop \<open>for (const sentence of sentences)\<close> in the \<open>data\<close>
  handler.\<close>

definition handleSentence :: "conn \<Rightarrow> string list \<Rightarrow> conn" where
  "handleSentence c sentence =
    (case sentence of
       [] \<Rightarrow> c
     | type # _ \<Rightarrow>
        if \<not> loggedIn c then
          (if type = ''!done'' then
             c\<lparr>loggedIn := True, login := settlePromise (login c) Fulfilled\<rparr>
           else if type = ''!trap'' \<or> type = ''!fatal'' then
             (let msg = messageOf sentence ''Login failed''
              in destroyAll (c\<lparr>login := settlePromise (login c) (Failed msg)\<rparr>) msg)
           else c)
        else
          (case queue c of
             [] \<Rightarrow> c
           | q # rest \<Rightarrow>
              (let current = q\<lparr>accumulator := accumulator q @ [sentence]\<rparr>
               in if type \<in> {''!done'', ''!empty'', ''!trap'', ''!fatal''} then
                    (if type = ''!trap'' \<or> type = ''!fatal'' then
                       c\<lparr>queue := rest,
                          settled := settled c @
                            [(pid current,
                              Rejected (messageOf (concat (accumulator current)) ''RouterOS error''))]\<rparr>
                     else
                       c\<lparr>queue := rest,
                          settled := settled c @
                            [(pid current, Resolved (parseRows (accumulator current)))]\<rparr>)
                  else c\<lparr>queue := current # rest\<rparr>)))"

text \<open>The \<open>data\<close> handler: the chunk is appended to the residual buffer, the buffer
  is decoded, the remainder is kept and the sentences are handled in order.\<close>

definition onData :: "conn \<Rightarrow> buffer \<Rightarrow> conn" where
  "onData c chunk =
    (let (sentences, remaining) = decodePackets (buf c @ chunk)
     in foldl handleSentence (c\<lparr>buf := remaining\<rparr>) sentences)"

definition sendLogin :: "opts \<Rightarrow> conn \<Rightarrow> conn" where
  "sendLogin opt c =
    c\<lparr>sent := sent c @
       [encodeSentence [''/login'', ''=name='' @ user opt, ''=password='' @ password opt]]\<rparr>"

definition onTimeout :: "opts \<Rightarrow> conn \<Rightarrow> conn" where
  "onTimeout opt c =
    (let err = ''Connection timeout ke '' @ host opt @ '':'' @ port opt;
         c' = (if \<not> loggedIn c then c\<lparr>login := settlePromise (login c) (Failed err)\<rparr> else c)
     in destroyAll c' err)"

definition onError :: "conn \<Rightarrow> string \<Rightarrow> conn" where
  "onError c err =
    (if \<not> loggedIn c then c\<lparr>login := settlePromise (login c) (Failed err)\<rparr>
     else destroyAll c err)"

definition onClose :: "conn \<Rightarrow> conn" where
  "onClose c =
    (let c' = c\<lparr>onCloseCalls := onCloseCalls c + 1\<rparr>
     in if queue c' \<noteq> [] then destroyAll c' ''Connection closed unexpectedly'' else c')"

text \<open>\<open>api.write(words)\<close> and \<open>api.close()\<close>\<close>

definition api_write :: "conn \<Rightarrow> string list \<Rightarrow> conn" where
  "api_write c words =
    (if destroyed c then
       c\<lparr>settled := settled c @ [(submitted c, Rejected ''Connection already closed'')],
          submitted := submitted c + 1\<rparr>
     else
       c\<lparr>queue := queue c @ [\<lparr>pid = submitted c, accumulator = []\<rparr>],
          sent := sent c @ [encodeSentence words],
          submitted := submitted c + 1\<rparr>)"

definition api_close :: "conn \<Rightarrow> conn" where
  "api_close c = destroyAll c ''Closed by caller''"

text \<open>What can happen to a connection: the events of its socket and the calls of its
  \<open>api\<close> object. \<open>Connect\<close> stands for \<open>connect\<close> on a plain socket and for
  \<open>secureConnect\<close> on a TLS one.\<close>

datatype event =
    Connect
  | Data buffer
  | Timeout
  | SockError string
  | SockClose
  | Write "string list"
  | Close

fun step :: "opts \<Rightarrow> conn \<Rightarrow> event \<Rightarrow> conn" where
  "step opt c Connect = sendLogin opt c"
| "step opt c (Data chunk) = onData c chunk"
| "step opt c Timeout = onTimeout opt c"
| "step opt c (SockError err) = onError c err"
| "step opt c SockClose = onClose c"
| "step opt c (Write words) = api_write c words"
| "step opt c Close = api_close c"

definition run :: "opts \<Rightarrow> event list \<Rightarrow> conn" where
  "run opt evs = foldl (step opt) initial evs"


text \<open>The sentences that the \<open>data\<close> handler obtains from a sequence of chunks:
  its first three statements, repeated for each chunk, starting from the residual
  buffer \<open>residual\<close>.\<close>

fun reassemble :: "buffer \<Rightarrow> buffer list \<Rightarrow> string list list \<times> buffer" where
  "reassemble residual [] = ([], residual)"
| "reassemble residual (chunk # chunks) =
    (let (sentences, remaining) = decodePackets (residual @ chunk);
         (more, final) = reassemble remaining chunks
     in (sentences @ more, final))"

text \<open>The queue discipline: the requests settled so far, followed by the requests still
  queued, are the requests submitted so far in the order of their submission; and a
  destroyed connection has an empty queue.\<close>

definition fifo_inv :: "conn \<Rightarrow> bool" where
  "fifo_inv c = (map fst (settled c) @ map pid (queue c) = [0..<submitted c]
                 \<and> (queue c = [] \<or> \<not> destroyed c))"

text \<open>A plain connection to a router, the state it is in after a successful login and
  two \<open>write\<close> calls, a data row, and the state after a timeout with both requests
  still queued.\<close>

definition opt0 :: opts where
  "opt0 = \<lparr>host = ''10.0.0.1'', port = ''8728'', user = ''admin'', password = ''secret'',
           useTls = False, caFingerprint = None, caCert = None\<rparr>"

definition ready2 :: conn where
  "ready2 = run opt0 [Connect, Data (encodeSentence [''!done'']), Write [''/a''], Write [''/b'']]"

definition row1 :: "string list" where
  "row1 = [''!re'', ''=name=Alpha'', ''=allowed-address=10.0.0.2/32,fd00::2/128'']"

definition timedOut :: conn where
  "timedOut = run opt0 [Connect, Data (encodeSentence [''!done'']), Write [''/a''], Write [''/b''],
     Timeout]"

section \<open>Connection pool\<close>

text \<open>
  \<open>config.routeros\<close>, and the state that \<open>MikrotikService.connect\<close> works on: the
  process-wide \<open>pool\<close>, the delays passed to \<open>sleep\<close> so far, and the number of
  calls of \<open>rosConnect\<close> so far. The outcome of the \<open>k\<close>-th call of \<open>rosConnect\<close>
  (counted from 0) is given by a function: the message of the error it rejects with, or
  the \<open>api\<close> object it resolves with.
\<close>

record routeros =
  timeout :: nat
  maxRetries :: nat
  retryDelay :: nat

record 'api poolState =
  pool :: "string \<rightharpoonup> 'api"
  slept :: "nat list"
  attempts :: nat

text \<open>\<open>connect(attempt)\<close> run to completion by one caller, with no other caller
  running during its awaits.\<close>

function connect ::
  "routeros \<Rightarrow> string \<Rightarrow> string \<Rightarrow> (nat \<Rightarrow> string + 'api) \<Rightarrow> 'api poolState \<Rightarrow> nat
   \<Rightarrow> (string + 'api) \<times> 'api poolState" where
  "connect cfg hostname poolKey rosConnect st attempt =
    (case pool st poolKey of
       Some api \<Rightarrow> (Inr api, st)
     | None \<Rightarrow>
        (case rosConnect (attempts st) of
           Inr api \<Rightarrow>
             (Inr api, st\<lparr>pool := (pool st)(poolKey \<mapsto> api), attempts := attempts st + 1\<rparr>)
         | Inl err \<Rightarrow>
             (let st' = st\<lparr>pool := (pool st)(poolKey := None), attempts := attempts st + 1\<rparr>
              in if attempt < maxRetries cfg then
                   connect cfg hostname poolKey rosConnect
                     (st'\<lparr>slept := slept st' @ [retryDelay cfg]\<rparr>) (attempt + 1)
                 else (Inl (''Gagal konek ke router '' @ hostname @ '': '' @ err), st'))))"
  by pat_completeness auto
termination
  by (relation "measure (\<lambda>(cfg, hostname, poolKey, rosConnect, st, attempt). maxRetries cfg - attempt)")
     auto

declare connect.simps [simp del]

text \<open>
  The same function cut at its awaits, for several callers of one service running
  interleaved on the event loop. A call of \<open>connect\<close> is waiting for \<open>rosConnect\<close>
  in attempt \<open>n\<close>, or sleeping after the failure of attempt \<open>n\<close>, or has returned
  (or thrown). \<open>Call c\<close> is caller \<open>c\<close> calling \<open>connect()\<close>, \<open>RosSettled c r\<close>
  is the promise of \<open>rosConnect\<close> awaited by \<open>c\<close> settling with \<open>r\<close>, and
  \<open>Woken c\<close> is the end of the sleep of \<open>c\<close>.
\<close>

datatype 'api task = AwaitingRos nat | Sleeping nat | Returned "string + 'api"

record 'api poolSys =
  entries :: "string \<rightharpoonup> 'api"
  tasks :: "nat \<rightharpoonup> 'api task"

datatype 'api poolEvent = Call nat | RosSettled nat "string + 'api" | Woken nat

text \<open>The statements of \<open>connect\<close> up to the await of \<open>rosConnect\<close>.\<close>

definition connectEnter :: "string \<Rightarrow> 'api poolSys \<Rightarrow> nat \<Rightarrow> nat \<Rightarrow> 'api poolSys" where
  "connectEnter poolKey sys c attempt =
    (case entries sys poolKey of
       Some api \<Rightarrow> sys\<lparr>tasks := (tasks sys)(c \<mapsto> Returned (Inr api))\<rparr>
     | None \<Rightarrow> sys\<lparr>tasks := (tasks sys)(c \<mapsto> AwaitingRos attempt)\<rparr>)"

fun poolStep ::
  "routeros \<Rightarrow> string \<Rightarrow> string \<Rightarrow> 'api poolSys \<Rightarrow> 'api poolEvent \<Rightarrow> 'api poolSys" where
  "poolStep cfg hostname poolKey sys (Call c) = connectEnter poolKey sys c 1"
| "poolStep cfg hostname poolKey sys (RosSettled c r) =
    (case tasks sys c of
       Some (AwaitingRos attempt) \<Rightarrow>
         (case r of
            Inr api \<Rightarrow>
              sys\<lparr>entries := (entries sys)(poolKey \<mapsto> api),
                  tasks := (tasks sys)(c \<mapsto> Returned (Inr api))\<rparr>
          | Inl err \<Rightarrow>
              (if attempt < maxRetries cfg then
                 sys\<lparr>entries := (entries sys)(poolKey := None),
                     tasks := (tasks sys)(c \<mapsto> Sleeping attempt)\<rparr>
               else
                 sys\<lparr>entries := (entries sys)(poolKey := None),
                     tasks := (tasks sys)(c \<mapsto>
                       Returned (Inl (''Gagal konek ke router '' @ hostname @ '': '' @ err)))\<rparr>))
     | _ \<Rightarrow> sys)"
| "poolStep cfg hostname poolKey sys (Woken c) =
    (case tasks sys c of
       Some (Sleeping attempt) \<Rightarrow> connectEnter poolKey sys c (attempt + 1)
     | _ \<Rightarrow> sys)"

definition poolRun ::
  "routeros \<Rightarrow> string \<Rightarrow> string \<Rightarrow> 'api poolEvent list \<Rightarrow> 'api poolSys" where
  "poolRun cfg hostname poolKey evs =
    foldl (poolStep cfg hostname poolKey) \<lparr>entries = Map.empty, tasks = Map.empty\<rparr> evs"

text \<open>Caller \<open>c\<close> has a connection attempt (a transport and login sequence) in
  flight.\<close>

definition awaiting :: "'api poolSys \<Rightarrow> nat \<Rightarrow> bool" where
  "awaiting sys c = (case tasks sys c of Some (AwaitingRos _) \<Rightarrow> True | _ \<Rightarrow> False)"

definition cfg3 :: routeros where
  "cfg3 = \<lparr>timeout = 15, maxRetries = 3, retryDelay = 1000\<rparr>"

definition emptyPool :: "nat poolState" where
  "emptyPool = \<lparr>pool = Map.empty, slept = [], attempts = 0\<rparr>"

text \<open>The pool after one caller has connected, and while one caller is connecting.\<close>

definition pooled :: "nat poolSys" where
  "pooled = poolRun cfg3 ''r1'' ''srv_0'' [Call 0, RosSettled 0 (Inr 7)]"

definition connecting :: "nat poolSys" where
  "connecting = poolRun cfg3 ''r1'' ''srv_0'' [Call 0]"

section \<open>TLS fingerprint pinning\<close>

text \<open>
  The ASCII white space characters, as \<open>trim\<close> below uses them.
\<close>

definition isSpace :: "char \<Rightarrow> bool" where
  "isSpace c = (c \<in> {CHR '' '', CHR 0x09, CHR 0x0A, CHR 0x0B, CHR 0x0C, CHR 0x0D})"

text \<open>
  \<open>caFingerprint.replace(/[:\s]/g, "")\<close> on the UTF-8 bytes of the string. The class
  \<open>\s\<close> is the white space and the line terminators of the language: the six ASCII
  characters, U+00A0 (\<open>c2 a0\<close>), U+1680 (\<open>e1 9a 80\<close>), U+2000 to U+200A
  (\<open>e2 80 80\<close> to \<open>e2 80 8a\<close>), U+2028, U+2029, U+202F (\<open>e2 80 a8\<close>,
  \<open>e2 80 a9\<close>, \<open>e2 80 af\<close>), U+205F (\<open>e2 81 9f\<close>), U+3000 (\<open>e3 80 80\<close>) and
  U+FEFF (\<open>ef bb bf\<close>). \<open>separatorLength s\<close> is the number of bytes of the
  character at the head of \<open>s\<close> when the expression matches it, and 0 otherwise.
\<close>

definition separatorLength :: "string \<Rightarrow> nat" where
  "separatorLength s =
    (case s of
       [] \<Rightarrow> 0
     | c # cs \<Rightarrow>
        if c = CHR '':'' \<or> isSpace c then 1
        else if take 2 s = [CHR 0xC2, CHR 0xA0] then 2
        else if take 3 s \<in> {[CHR 0xE1, CHR 0x9A, CHR 0x80],
                              [CHR 0xE2, CHR 0x80, CHR 0xA8],
                              [CHR 0xE2, CHR 0x80, CHR 0xA9],
                              [CHR 0xE2, CHR 0x80, CHR 0xAF],
                              [CHR 0xE2, CHR 0x81, CHR 0x9F],
                              [CHR 0xE3, CHR 0x80, CHR 0x80],
                              [CHR 0xEF, CHR 0xBB, CHR 0xBF]} then 3
        else if take 2 s = [CHR 0xE2, CHR 0x80] \<and> 3 \<le> length s
                \<and> 0x80 \<le> (of_char (s ! 2) :: nat) \<and> (of_char (s ! 2) :: nat) \<le> 0x8A then 3
        else 0)"

function stripSeparators :: "string \<Rightarrow> string" where
  "stripSeparators s =
    (case s of
       [] \<Rightarrow> []
     | c # cs \<Rightarrow>
        if separatorLength s = 0 then c # stripSeparators cs
        else stripSeparators (drop (separatorLength s) s))"
  by pat_completeness auto
termination
  by (relation "measure length") auto

declare stripSeparators.simps [simp del]

text \<open>
  The callback \<open>checkServerIdentity\<close> that \<open>rosConnect\<close> passes to \<open>tls.connect\<close>
  when a fingerprint is configured. Two functions of the platform are parameters:
  \<open>sha256hex der\<close> is \<open>crypto.createHash("sha256").update(der).digest("hex")\<close>, and
  \<open>toLowerCase\<close> is the string method of that name. The result is the message of the
  returned \<open>Error\<close>, or \<open>None\<close> for \<open>undefined\<close>.
\<close>

definition wantFingerprint :: "(string \<Rightarrow> string) \<Rightarrow> string \<Rightarrow> string" where
  "wantFingerprint toLowerCase fingerprint = toLowerCase (stripSeparators fingerprint)"

definition checkServerIdentity ::
  "(buffer \<Rightarrow> string) \<Rightarrow> (string \<Rightarrow> string) \<Rightarrow> string \<Rightarrow> buffer \<Rightarrow> string option" where
  "checkServerIdentity sha256hex toLowerCase fingerprint der =
    (let fp = sha256hex der; want = wantFingerprint toLowerCase fingerprint
     in if fp \<noteq> want then Some (''TLS fingerprint mismatch: got '' @ fp @ '', want '' @ want)
        else None)"

text \<open>\<open>!!(caCert || caFingerprint)\<close>, the value that \<open>rosConnect\<close> gives
  \<open>rejectUnauthorized\<close>: an absent or empty string is falsy.\<close>

definition truthy :: "string option \<Rightarrow> bool" where
  "truthy v = (case v of None \<Rightarrow> False | Some s \<Rightarrow> s \<noteq> [])"

definition rejectUnauthorized :: "opts \<Rightarrow> bool" where
  "rejectUnauthorized opt = (truthy (caCert opt) \<or> truthy (caFingerprint opt))"

text \<open>
  What the peer presents to the platform: the raw certificate \<open>cert.raw\<close>, the error
  of the platform's validation of the certificate chain against the trusted
  authorities (\<open>None\<close> when the chain is verified; a self-signed certificate with no
  authority configured gives the error \<open>self-signed certificate\<close>), and the error of the
  platform's default check of the host name, used when no callback is passed.
\<close>

record peerCert =
  raw :: buffer
  verifyError :: "string option"
  hostnameError :: "string option"

text \<open>
  Modelled from the documentation of \<open>tls.connect\<close> and \<open>net.createConnection\<close> of
  Node.js, the platform (this is not code of the repository). A plain socket emits
  \<open>connect\<close>. A TLS socket validates the certificate chain first; only when the chain
  is verified does it call \<open>checkServerIdentity\<close> (the callback of \<open>rosConnect\<close> when
  a fingerprint is configured, the default check otherwise). With an error from either
  step and \<open>rejectUnauthorized\<close> set, the socket is destroyed with that error
  (\<open>error\<close>, then \<open>close\<close>) and \<open>secureConnect\<close> is not emitted; in every other
  case \<open>secureConnect\<close> is emitted.
\<close>

definition transport ::
  "(buffer \<Rightarrow> string) \<Rightarrow> (string \<Rightarrow> string) \<Rightarrow> opts \<Rightarrow> peerCert \<Rightarrow> event list" where
  "transport sha256hex toLowerCase opt cert =
    (if useTls opt then
       (let err =
          (case verifyError cert of
             Some e \<Rightarrow> Some e
           | None \<Rightarrow>
              (case caFingerprint opt of
                 None \<Rightarrow> hostnameError cert
               | Some fingerprint \<Rightarrow>
                  if fingerprint = [] then hostnameError cert
                  else checkServerIdentity sha256hex toLowerCase fingerprint (raw cert)))
        in case err of
             None \<Rightarrow> [Connect]
           | Some e \<Rightarrow> if rejectUnauthorized opt then [SockError e, SockClose] else [Connect])
     else [Connect])"

text \<open>A TLS connection with a configured fingerprint and no authority, the certificate
  of a router (self-signed, as RouterOS issues it), the same certificate as a client
  that trusts its issuer sees it, and \<open>toLowerCase\<close> on ASCII text.\<close>

definition optTls :: opts where
  "optTls = \<lparr>host = ''10.0.0.1'', port = ''8729'', user = ''admin'', password = ''secret'',
           useTls = True, caFingerprint = Some ''AA:BB 0C'', caCert = None\<rparr>"

definition selfSigned :: peerCert where
  "selfSigned = \<lparr>raw = [0x30, 0x82], verifyError = Some ''self-signed certificate'',
                  hostnameError = None\<rparr>"

definition trusted :: peerCert where
  "trusted = \<lparr>raw = [0x30, 0x82], verifyError = None, hostnameError = None\<rparr>"

definition asciiLowerCase :: "string \<Rightarrow> string" where
  "asciiLowerCase s =
    map (\<lambda>c. let n = (of_char c :: nat) in if 65 \<le> n \<and> n \<le> 90 then char_of (n + 32) else c) s"

section \<open>Peers\<close>

text \<open>
  A JSON value. \<open>JSON.stringify\<close> and \<open>JSON.parse\<close> are functions of the platform
  and are parameters of the model: \<open>JSON_stringify\<close> gives the text of a value, and
  \<open>JSON_parse\<close> gives the value of a text, or \<open>None\<close> where it throws a
  \<open>SyntaxError\<close>. An object lists each of its keys once.
\<close>

datatype json =
    JNull
  | JBool bool
  | JNumber int
  | JString string
  | JArray "json list"
  | JObject "(string \<times> json) list"

definition trim :: "string \<Rightarrow> string" where
  "trim s = rev (dropWhile isSpace (rev (dropWhile isSpace s)))"

text \<open>\<open>s.split(c)\<close> for a separator of one character.\<close>

primrec splitOn :: "char \<Rightarrow> string \<Rightarrow> string list" where
  "splitOn c [] = [[]]"
| "splitOn c (x # xs) =
    (if x = c then [] # splitOn c xs
     else (case splitOn c xs of p # ps \<Rightarrow> (x # p) # ps | [] \<Rightarrow> [[x]]))"

definition isDigit :: "char \<Rightarrow> bool" where
  "isDigit c = (48 \<le> (of_char c :: nat) \<and> (of_char c :: nat) \<le> 57)"

text \<open>The test of the regular expression \<open>/^\d{1,3}(\.\d{1,3}){3}$/\<close>.\<close>

definition isDottedQuad :: "string \<Rightarrow> bool" where
  "isDottedQuad s =
    (let parts = splitOn CHR ''.'' s
     in length parts = 4 \<and> list_all (\<lambda>p. 1 \<le> length p \<and> length p \<le> 3 \<and> list_all isDigit p) parts)"

text \<open>
  \<open>addPeer\<close> up to its call of \<open>api.write\<close>: the message of the error it throws, or
  the sentence it writes. \<open>now\<close> is \<open>new Date().toISOString()\<close> and \<open>wgInterface\<close>
  is \<open>this.srv.wgInterface\<close>.
\<close>

definition addPeer ::
  "(json \<Rightarrow> string) \<Rightarrow> string \<Rightarrow> string \<Rightarrow> string \<Rightarrow> string \<Rightarrow> string \<Rightarrow> string \<Rightarrow> string
   \<Rightarrow> string + string list" where
  "addPeer JSON_stringify wgInterface now name ipv4 ipv6 publicKey privateKey =
    (if trim name = [] then Inl ''Nama peer wajib diisi''
     else if trim ipv4 = [] then Inl ''IPv4 wajib diisi''
     else if trim ipv6 = [] then Inl ''IPv6 wajib diisi''
     else if trim publicKey = [] then Inl ''Public key wajib diisi''
     else
       (let v4 = trim ipv4; v6 = trim ipv6
        in if \<not> isDottedQuad v4 then Inl (''IPv4 tidak valid: '' @ v4)
           else if CHR '':'' \<notin> set v6 then Inl (''IPv6 tidak valid: '' @ v6)
           else
             (let comment = JSON_stringify
                    (JObject [(''privkey'', JString privateKey), (''created_at'', JString now)])
              in Inr [''/interface/wireguard/peers/add'',
                      ''=interface='' @ wgInterface,
                      ''=name='' @ trim name,
                      ''=public-key='' @ trim publicKey,
                      ''=allowed-address='' @ v4 @ ''/32,'' @ v6 @ ''/128'',
                      ''=comment='' @ comment])))"

text \<open>
  \<open>_parsePeer\<close>. The private key: \<open>JSON.parse(peer.comment || "{}")\<close>, then
  \<open>parsed.privkey ?? null\<close>, inside a \<open>try\<close> whose \<open>catch\<close> leaves \<open>null\<close>.
  Reading a property of the value \<open>null\<close> throws; reading \<open>privkey\<close> of a value
  that is not an object gives \<open>undefined\<close>. \<open>None\<close> stands for \<open>null\<close>.
\<close>

definition parsePrivkey :: "(string \<Rightarrow> json option) \<Rightarrow> string option \<Rightarrow> json option" where
  "parsePrivkey JSON_parse comment =
    (case JSON_parse (case comment of None \<Rightarrow> ''{}'' | Some c \<Rightarrow> if c = [] then ''{}'' else c) of
       None \<Rightarrow> None
     | Some JNull \<Rightarrow> None
     | Some (JObject props) \<Rightarrow>
         (case map_of props ''privkey'' of
            None \<Rightarrow> None
          | Some JNull \<Rightarrow> None
          | Some v \<Rightarrow> Some v)
     | Some _ \<Rightarrow> None)"

record peerInfo =
  attrs :: row
  name :: string
  privkey :: "json option"
  ipv4 :: string
  ipv6 :: string
  enabled :: bool

definition parsePeer :: "(string \<Rightarrow> json option) \<Rightarrow> row \<Rightarrow> peerInfo" where
  "parsePeer JSON_parse peer =
    (let addrs = filter (\<lambda>s. s \<noteq> [])
                   (map trim (splitOn CHR '','' (case peer ''allowed-address'' of
                                                   None \<Rightarrow> [] | Some a \<Rightarrow> a)))
     in \<lparr>attrs = peer,
         name = (case peer ''name'' of None \<Rightarrow> ''Unknown''
                 | Some n \<Rightarrow> if n = [] then ''Unknown'' else n),
         privkey = parsePrivkey JSON_parse (peer ''comment''),
         ipv4 = (case find (\<lambda>a. CHR ''.'' \<in> set a) addrs of
                   Some a \<Rightarrow> hd (splitOn CHR ''/'' a) | None \<Rightarrow> ''-''),
         ipv6 = (case find (\<lambda>a. CHR '':'' \<in> set a) addrs of
                   Some a \<Rightarrow> hd (splitOn CHR ''/'' a) | None \<Rightarrow> ''-''),
         enabled = (peer ''disabled'' \<noteq> Some ''true'')\<rparr>)"

text \<open>The result of \<open>getPeers\<close> for the rows that \<open>api.write\<close> resolved with.\<close>

definition getPeers :: "(string \<Rightarrow> json option) \<Rightarrow> row list \<Rightarrow> peerInfo list" where
  "getPeers JSON_parse peers = map (parsePeer JSON_parse) peers"

text \<open>A pair of functions that agree with JSON on the two texts used below.\<close>

definition commentObj :: json where
  "commentObj = JObject [(''privkey'', JString ''cHJpdg==''),
                         (''created_at'', JString ''2026-01-01T00:00:00.000Z'')]"

definition commentText :: string where
  \<open>commentText = ''{"privkey":"cHJpdg==","created_at":"2026-01-01T00:00:00.000Z"}''\<close>

definition stringify0 :: "json \<Rightarrow> string" where
  "stringify0 v = (if v = commentObj then commentText else ''null'')"

definition parse0 :: "string \<Rightarrow> json option" where
  "parse0 s = (if s = ''{}'' then Some (JObject [])
               else if s = commentText then Some commentObj else None)"

section \<open>Properties of the codec\<close>

lemma lt8: "n < 8 \<Longrightarrow> n \<in> {0, 1, 2, 3, 4, 5, 6, 7::nat}"
  by auto

lemma byte_eqI: "(\<And>n. n \<in> {0, 1, 2, 3, 4, 5, 6, 7::nat} \<Longrightarrow> bit a n = bit b n) \<Longrightarrow> a = (b::byte)"
  by (rule bit_word_eqI) (use lt8 in auto)

lemma byte_and_80: "((b::byte) AND 0x80 = 0x80) = bit b 7"
proof
  assume "b AND 0x80 = 0x80"
  then have "bit (b AND 0x80) 7 = bit (0x80::byte) 7" by simp
  then show "bit b 7" by (simp add: bit_and_iff)
next
  assume "bit b 7"
  then show "b AND 0x80 = 0x80"
    by (intro byte_eqI) (auto simp: bit_and_iff)
qed

lemma byte_and_c0: "((b::byte) AND 0xc0 = 0xc0) = (bit b 7 \<and> bit b 6)"
proof
  assume a: "b AND 0xc0 = 0xc0"
  have "bit (b AND 0xc0) 7 = bit (0xc0::byte) 7" "bit (b AND 0xc0) 6 = bit (0xc0::byte) 6"
    using a by simp_all
  then show "bit b 7 \<and> bit b 6" by (simp add: bit_and_iff)
next
  assume "bit b 7 \<and> bit b 6"
  then show "b AND 0xc0 = 0xc0"
    by (intro byte_eqI) (auto simp: bit_and_iff)
qed

lemma byte_and_e0: "((b::byte) AND 0xe0 = 0xe0) = (bit b 7 \<and> bit b 6 \<and> bit b 5)"
proof
  assume a: "b AND 0xe0 = 0xe0"
  have "bit (b AND 0xe0) 7 = bit (0xe0::byte) 7" "bit (b AND 0xe0) 6 = bit (0xe0::byte) 6"
     "bit (b AND 0xe0) 5 = bit (0xe0::byte) 5"
    using a by simp_all
  then show "bit b 7 \<and> bit b 6 \<and> bit b 5" by (simp add: bit_and_iff)
next
  assume "bit b 7 \<and> bit b 6 \<and> bit b 5"
  then show "b AND 0xe0 = 0xe0"
    by (intro byte_eqI) (auto simp: bit_and_iff)
qed

lemma byte_and_f0: "((b::byte) AND 0xf0 = 0xf0) = (bit b 7 \<and> bit b 6 \<and> bit b 5 \<and> bit b 4)"
proof
  assume a: "b AND 0xf0 = 0xf0"
  have "bit (b AND 0xf0) 7 = bit (0xf0::byte) 7" "bit (b AND 0xf0) 6 = bit (0xf0::byte) 6"
     "bit (b AND 0xf0) 5 = bit (0xf0::byte) 5" "bit (b AND 0xf0) 4 = bit (0xf0::byte) 4"
    using a by simp_all
  then show "bit b 7 \<and> bit b 6 \<and> bit b 5 \<and> bit b 4" by (simp add: bit_and_iff)
next
  assume "bit b 7 \<and> bit b 6 \<and> bit b 5 \<and> bit b 4"
  then show "b AND 0xf0 = 0xf0"
    by (intro byte_eqI) (auto simp: bit_and_iff)
qed

lemmas byte_tests = byte_and_f0 byte_and_e0 byte_and_c0 byte_and_80

lemma nat_and_255: "(n::nat) AND 0xff = n mod 256"
proof -
  have "n AND mask 8 = take_bit 8 n" by (simp add: take_bit_eq_mask)
  then show ?thesis by (simp add: mask_eq_exp_minus_1 take_bit_eq_mod)
qed

lemma nat_and_63: "(n::nat) AND 0x3f = n mod 64"
proof -
  have "n AND mask 6 = take_bit 6 n" by (simp add: take_bit_eq_mask)
  then show ?thesis by (simp add: mask_eq_exp_minus_1 take_bit_eq_mod)
qed

lemma nat_and_31: "(n::nat) AND 0x1f = n mod 32"
proof -
  have "n AND mask 5 = take_bit 5 n" by (simp add: take_bit_eq_mask)
  then show ?thesis by (simp add: mask_eq_exp_minus_1 take_bit_eq_mod)
qed

lemma nat_and_15: "(n::nat) AND 0x0f = n mod 16"
proof -
  have "n AND mask 4 = take_bit 4 n" by (simp add: take_bit_eq_mask)
  then show ?thesis by (simp add: mask_eq_exp_minus_1 take_bit_eq_mod)
qed

lemma bit7_small: "L < 128 \<Longrightarrow> \<not> bit (of_nat L :: byte) 7"
proof -
  assume "L < 128"
  then have "\<not> bit L 7" by (simp add: bit_iff_odd)
  then show ?thesis by (simp add: bit_simps)
qed

lemma enc2_bits:
  "bit (of_nat ((x AND 0x3f) OR 0x80) :: byte) 7"
  "\<not> bit (of_nat ((x AND 0x3f) OR 0x80) :: byte) 6"
  by (simp_all add: bit_simps)

lemma enc3_bits:
  "bit (of_nat ((x AND 0x1f) OR 0xc0) :: byte) 7"
  "bit (of_nat ((x AND 0x1f) OR 0xc0) :: byte) 6"
  "\<not> bit (of_nat ((x AND 0x1f) OR 0xc0) :: byte) 5"
  by (simp_all add: bit_simps)

lemma enc4_bits:
  "bit (of_nat ((x AND 0x0f) OR 0xe0) :: byte) 7"
  "bit (of_nat ((x AND 0x0f) OR 0xe0) :: byte) 6"
  "bit (of_nat ((x AND 0x0f) OR 0xe0) :: byte) 5"
  "\<not> bit (of_nat ((x AND 0x0f) OR 0xe0) :: byte) 4"
  by (simp_all add: bit_simps)

lemma enc2_val: "unat ((of_nat ((x AND 0x3f) OR 0x80) :: byte) AND 0x3f) = x mod 64"
proof -
  have "(of_nat ((x AND 0x3f) OR 0x80) :: byte) AND 0x3f = of_nat (x AND 0x3f)"
    by (intro byte_eqI) (auto simp: bit_simps)
  then show ?thesis by (simp add: nat_and_63 unat_of_nat)
qed

lemma enc3_val: "unat ((of_nat ((x AND 0x1f) OR 0xc0) :: byte) AND 0x1f) = x mod 32"
proof -
  have "(of_nat ((x AND 0x1f) OR 0xc0) :: byte) AND 0x1f = of_nat (x AND 0x1f)"
    by (intro byte_eqI) (auto simp: bit_simps)
  then show ?thesis by (simp add: nat_and_31 unat_of_nat)
qed

lemma enc4_val: "unat ((of_nat ((x AND 0x0f) OR 0xe0) :: byte) AND 0x0f) = x mod 16"
proof -
  have "(of_nat ((x AND 0x0f) OR 0xe0) :: byte) AND 0x0f = of_nat (x AND 0x0f)"
    by (intro byte_eqI) (auto simp: bit_simps)
  then show ?thesis by (simp add: nat_and_15 unat_of_nat)
qed

lemma unat_low: "unat (of_nat (n AND 0xff) :: byte) = n mod 256"
  by (simp add: nat_and_255 unat_of_nat)

lemma readLength_1: "L < 0x80 \<Longrightarrow> readLength (encodeLength L @ rest) 0 = Some (L, 1)"
  by (simp add: readLength_def encodeLength_def byte_tests bit7_small unat_of_nat)

lemma readLength_2:
  assumes "\<not> L < 0x80" "L < 0x4000"
  shows "readLength (encodeLength L @ rest) 0 = Some (L, 2)"
proof -
  have "L div 256 mod 64 = L div 256" using assms by simp
  then have "256 * (L div 256 mod 64) + L mod 256 = L" by simp
  then show ?thesis using assms
    by (simp add: readLength_def encodeLength_def byte_tests enc2_bits enc2_val unat_low
        push_bit_eq_mult drop_bit_eq_div)
qed

lemma recompose:
  fixes A B Q R L :: nat
  assumes "256 * A + B = Q" "256 * Q + R = L"
  shows "65536 * A + 256 * B + R = L"
  using assms by linarith

lemma recompose4:
  fixes A B C P Q R L :: nat
  assumes "256 * A + B = P" "256 * P + C = Q" "256 * Q + R = L"
  shows "16777216 * A + 65536 * B + 256 * C + R = L"
  using assms by linarith

lemma bytes3: "65536 * (L div 65536) + 256 * (L div 256 mod 256) + L mod 256 = (L::nat)"
proof -
  have a: "L div 65536 = L div 256 div 256" by (simp add: div_mult2_eq)
  show ?thesis unfolding a
    by (rule recompose [where Q = "L div 256"]) (rule mult_div_mod_eq)+
qed

lemma bytes4:
  "16777216 * (L div 16777216) + 65536 * (L div 65536 mod 256) + 256 * (L div 256 mod 256) + L mod 256 = (L::nat)"
proof -
  have a: "L div 65536 = L div 256 div 256" by (simp add: div_mult2_eq)
  have b: "L div 16777216 = L div 256 div 256 div 256" by (simp add: div_mult2_eq)
  show ?thesis unfolding a b
    by (rule recompose4 [where P = "L div 256 div 256" and Q = "L div 256"])
       (rule mult_div_mod_eq)+
qed

lemma readLength_3:
  assumes "\<not> L < 0x4000" "L < 0x200000"
  shows "readLength (encodeLength L @ rest) 0 = Some (L, 3)"
proof -
  have "L div 65536 mod 32 = L div 65536" using assms by simp
  then show ?thesis using assms bytes3 [of L]
    by (simp add: readLength_def encodeLength_def byte_tests enc3_bits enc3_val unat_low
        push_bit_eq_mult drop_bit_eq_div)
qed

lemma readLength_4:
  assumes "\<not> L < 0x200000" "L < 0x10000000"
  shows "readLength (encodeLength L @ rest) 0 = Some (L, 4)"
proof -
  have "L div 16777216 mod 16 = L div 16777216" using assms by simp
  then show ?thesis using assms bytes4 [of L]
    by (simp add: readLength_def encodeLength_def byte_tests enc4_bits enc4_val unat_low
        push_bit_eq_mult drop_bit_eq_div)
qed

lemma readLength_5:
  assumes "\<not> L < 0x10000000" "L < 0x100000000"
  shows "readLength (encodeLength L @ rest) 0 = Some (L, 5)"
proof -
  have "L div 16777216 mod 256 = L div 16777216" using assms by simp
  then show ?thesis using assms bytes4 [of L]
    by (simp add: readLength_def encodeLength_def byte_tests unat_low
        push_bit_eq_mult drop_bit_eq_div)
qed


lemma length_encodeLength: "length (encodeLength L) = prefixLength L"
  by (simp add: encodeLength_def prefixLength_def)

lemma readLength_encodeLength:
  assumes "L < 0x100000000"
  shows "readLength (encodeLength L @ rest) 0 = Some (L, prefixLength L)"
proof -
  consider "L < 0x80" | "\<not> L < 0x80" "L < 0x4000" | "\<not> L < 0x4000" "L < 0x200000"
    | "\<not> L < 0x200000" "L < 0x10000000" | "\<not> L < 0x10000000"
    by linarith
  then show ?thesis
  proof cases
    case 1
    then show ?thesis by (simp add: readLength_1 prefixLength_def)
  next
    case 2
    then show ?thesis by (simp add: readLength_2 prefixLength_def)
  next
    case 3
    then show ?thesis by (simp add: readLength_3 prefixLength_def)
  next
    case 4
    then show ?thesis by (simp add: readLength_4 prefixLength_def)
  next
    case 5
    then show ?thesis using assms by (simp add: readLength_5 prefixLength_def)
  qed
qed

lemma readLength_append: "readLength (pre @ xs) (length pre + i) = readLength xs i"
  by (simp add: readLength_def Let_def nth_append add.assoc)

lemma utf8_roundtrip: "utf8_string (utf8_bytes w) = w"
proof -
  have "char_of (unat (of_nat (of_char c) :: byte)) = c" for c :: char
  proof -
    have "unat (of_nat (of_char c) :: byte) = take_bit 8 (of_char c :: nat)"
      by (simp add: unat_of_nat take_bit_eq_mod)
    then show ?thesis by (simp add: char_of_take_bit_eq)
  qed
  then show ?thesis by (simp add: utf8_string_def utf8_bytes_def map_idI)
qed

lemma length_utf8_bytes: "length (utf8_bytes w) = length w"
  by (simp add: utf8_bytes_def)

lemma decodeLoop_word:
  assumes "w \<noteq> []" "length w < 0x100000000"
  shows "decodeLoop (pre @ encodeWord w @ rest) (length pre) s ss
       = decodeLoop ((pre @ encodeWord w) @ rest) (length (pre @ encodeWord w)) (s @ [w]) ss"
proof -
  let ?L = "length w"
  let ?k = "prefixLength ?L"
  have rl: "readLength (pre @ encodeWord w @ rest) (length pre) = Some (?L, ?k)"
    using readLength_append [of pre "encodeWord w @ rest" 0] readLength_encodeLength [OF assms(2)]
    by (simp add: encodeWord_def length_utf8_bytes)
  have len: "length (encodeWord w) = ?k + ?L"
    by (simp add: encodeWord_def length_encodeLength length_utf8_bytes)
  have sub: "subarray (pre @ encodeWord w @ rest) (length pre + ?k) (length pre + (?k + ?L)) = utf8_bytes w"
    by (simp add: subarray_def encodeWord_def length_encodeLength length_utf8_bytes)
  show ?thesis
    using assms(1)
    by (subst decodeLoop.simps) (simp add: rl len sub utf8_roundtrip add.assoc)
qed

lemma decodeLoop_end:
  "decodeLoop (pre @ 0 # rest) (length pre) s ss =
     (if rest = [] then (ss @ [s], []) else decodeLoop ((pre @ [0]) @ rest) (length (pre @ [0])) [] (ss @ [s]))"
proof -
  have rl: "readLength (pre @ 0 # rest) (length pre) = Some (0, 1)"
    using readLength_append [of pre "0 # rest" 0]
    by (simp add: readLength_def)
  show ?thesis
    by (subst decodeLoop.simps) (simp add: rl)
qed

lemma decodeLoop_words:
  assumes "\<forall>w \<in> set ws. wordOk w"
  shows "decodeLoop (pre @ concat (map encodeWord ws) @ 0 # rest) (length pre) s ss
       = decodeLoop ((pre @ concat (map encodeWord ws)) @ 0 # rest)
           (length (pre @ concat (map encodeWord ws))) (s @ ws) ss"
  using assms
proof (induction ws arbitrary: pre s)
  case Nil
  then show ?case by simp
next
  case (Cons w ws)
  have w: "w \<noteq> []" "length w < 0x100000000" using Cons.prems by (simp_all add: wordOk_def)
  have "decodeLoop (pre @ concat (map encodeWord (w # ws)) @ 0 # rest) (length pre) s ss
      = decodeLoop (pre @ encodeWord w @ (concat (map encodeWord ws) @ 0 # rest)) (length pre) s ss"
    by simp
  also have "\<dots> = decodeLoop ((pre @ encodeWord w) @ (concat (map encodeWord ws) @ 0 # rest))
       (length (pre @ encodeWord w)) (s @ [w]) ss"
    by (rule decodeLoop_word [OF w])
  also have "\<dots> = decodeLoop (((pre @ encodeWord w) @ concat (map encodeWord ws)) @ 0 # rest)
       (length ((pre @ encodeWord w) @ concat (map encodeWord ws))) ((s @ [w]) @ ws) ss"
    using Cons.IH [of "pre @ encodeWord w" "s @ [w]"] Cons.prems by simp
  finally show ?case by simp
qed

lemma encodeSentence_eq: "encodeSentence ws = concat (map encodeWord ws) @ [0]"
  by (simp add: encodeSentence_def)

lemma decodeLoop_sentences:
  assumes "\<forall>S \<in> set Ss. \<forall>w \<in> set S. wordOk w" "Ss \<noteq> []"
  shows "decodeLoop (pre @ concat (map encodeSentence Ss)) (length pre) [] ss = (ss @ Ss, [])"
  using assms
proof (induction Ss arbitrary: pre ss)
  case Nil
  then show ?case by simp
next
  case (Cons S Ss)
  define rest where "rest = concat (map encodeSentence Ss)"
  define pre' where "pre' = pre @ concat (map encodeWord S)"
  have ok: "\<forall>w \<in> set S. wordOk w" using Cons.prems by simp
  have "decodeLoop (pre @ concat (map encodeSentence (S # Ss))) (length pre) [] ss
      = decodeLoop (pre @ concat (map encodeWord S) @ 0 # rest) (length pre) [] ss"
    by (simp add: encodeSentence_eq rest_def)
  also have "\<dots> = decodeLoop (pre' @ 0 # rest) (length pre') ([] @ S) ss"
    unfolding pre'_def by (rule decodeLoop_words [OF ok])
  also have "\<dots> = (if rest = [] then (ss @ [S], [])
       else decodeLoop ((pre' @ [0]) @ rest) (length (pre' @ [0])) [] (ss @ [S]))"
    by (simp only: append_Nil decodeLoop_end)
  finally have step: "decodeLoop (pre @ concat (map encodeSentence (S # Ss))) (length pre) [] ss
      = (if rest = [] then (ss @ [S], [])
         else decodeLoop ((pre' @ [0]) @ rest) (length (pre' @ [0])) [] (ss @ [S]))" .
  show ?case
  proof (cases "Ss = []")
    case True
    then have "rest = []" by (simp add: rest_def)
    then show ?thesis using step True by simp
  next
    case False
    then have ne: "rest \<noteq> []" unfolding rest_def by (cases Ss) (simp_all add: encodeSentence_eq)
    have "decodeLoop ((pre' @ [0]) @ rest) (length (pre' @ [0])) [] (ss @ [S]) = ((ss @ [S]) @ Ss, [])"
      unfolding rest_def using Cons.IH [of "pre' @ [0]" "ss @ [S]"] Cons.prems False by simp
    then show ?thesis using step ne by simp
  qed
qed

lemma decodePackets_sentences:
  assumes "\<forall>S \<in> set Ss. \<forall>w \<in> set S. wordOk w"
  shows "decodePackets (concat (map encodeSentence Ss)) = (Ss, [])"
proof (cases "Ss = []")
  case True
  then show ?thesis by (simp add: decodePackets_def)
next
  case False
  then have "concat (map encodeSentence Ss) \<noteq> []" by (cases Ss) (simp_all add: encodeSentence_eq)
  then show ?thesis
    using decodeLoop_sentences [OF assms False, of "[]" "[]"] by (simp add: decodePackets_def)
qed

lemma decodePackets_done: "decodePackets [5, 33, 100, 111, 110, 101, 0] = ([[''!done'']], [])"
proof -
  have e: "encodeSentence [''!done''] = [5, 33, 100, 111, 110, 101, 0]"
    by (simp add: encodeSentence_def encodeWord_def utf8_bytes_def encodeLength_def)
  show ?thesis
    using decodePackets_sentences [of "[[''!done'']]"] e by (simp add: wordOk_def)
qed

lemma decodePackets_done_cut: "decodePackets [5, 33, 100, 111, 110, 101] = ([], [])"
proof -
  have r: "readLength [5, 33, 100, 111, 110, 101] 0 = Some (5, 1)"
    by (simp add: readLength_def)
  show ?thesis
    unfolding decodePackets_def
    by (simp add: r decodeLoop.simps [of _ 0] decodeLoop.simps [of _ 6])
qed

lemma decodePackets_nul: "decodePackets [0] = ([[]], [])"
  unfolding decodePackets_def
  by (simp add: readLength_def decodeLoop.simps [of _ 0])

section \<open>Stream reassembly\<close>

text \<open>
  Claim C1 (reassembly equivalence: one chunk or any split of the encoded bytes gives the
  same sentences, and everything after the last complete sentence, the words already
  parsed of a partial sentence included, is kept for the next chunk). The code does not
  keep the parsed words of a partial sentence. The sentence \<open>["!done"]\<close> is encoded
  as the seven bytes \<open>05 21 64 6f 6e 65 00\<close>. Received as one chunk it is decoded as
  \<open>["!done"]\<close>. Received as the first six bytes followed by the terminator, the first
  call of \<open>decodePackets\<close> moves \<open>i\<close> past the word, drops the word and returns an
  empty remainder; the second call decodes the terminator alone as an empty sentence,
  which the \<open>data\<close> handler skips, so the login reply is never seen and the promise of
  \<open>rosConnect\<close> stays unsettled.
\<close>

theorem partial_sentence_words_lost:
  "encodeSentence [''!done''] = [5, 33, 100, 111, 110, 101, 0]
   \<and> reassemble [] [[5, 33, 100, 111, 110, 101, 0]] = ([[''!done'']], [])
   \<and> reassemble [] [[5, 33, 100, 111, 110, 101], [0]] = ([[]], [])
   \<and> login (run opt [Connect, Data [5, 33, 100, 111, 110, 101, 0]]) = Fulfilled
   \<and> login (run opt [Connect, Data [5, 33, 100, 111, 110, 101], Data [0]]) = Unsettled"
proof -
  have e: "encodeSentence [''!done''] = [5, 33, 100, 111, 110, 101, 0]"
    by (simp add: encodeSentence_def encodeWord_def utf8_bytes_def encodeLength_def)
  have a: "login (run opt [Connect, Data [5, 33, 100, 111, 110, 101, 0]]) = Fulfilled"
    by (simp add: run_def initial_def sendLogin_def onData_def decodePackets_done
        handleSentence_def settlePromise_def)
  have b: "login (run opt [Connect, Data [5, 33, 100, 111, 110, 101], Data [0]]) = Unsettled"
    by (simp add: run_def initial_def sendLogin_def onData_def decodePackets_done_cut
        decodePackets_nul handleSentence_def)
  show ?thesis
    using e a b by (simp add: decodePackets_done decodePackets_done_cut decodePackets_nul)
qed

section \<open>Round trip of the codec\<close>

text \<open>
  Claim C3, as the code has it: for every sentence \<open>S\<close> whose words are not empty and
  shorter than \<open>2^32\<close> bytes, decoding the encoding of \<open>S\<close> gives exactly \<open>S\<close> and
  no remainder; for every length \<open>L\<close> below \<open>2^32\<close> the decoded prefix of the
  encoding of \<open>L\<close> is \<open>L\<close>, and the number of bytes of the prefix is the one of the
  table (1, 2, 3, 4 or 5); a zero length ends the sentence, so a zero byte between two
  encoded sentences is decoded as an empty sentence and never as an empty word.
\<close>

theorem codec_round_trip:
  assumes "\<forall>w \<in> set S. wordOk w" and "L < 0x100000000"
  shows "decodePackets (encodeSentence S) = ([S], [])
       \<and> readLength (encodeLength L @ rest) 0 = Some (L, prefixLength L)
       \<and> length (encodeLength L) = prefixLength L
       \<and> decodePackets (encodeSentence S @ 0 # encodeSentence S) = ([S, [], S], [])"
proof -
  have a: "decodePackets (encodeSentence S) = ([S], [])"
    using decodePackets_sentences [of "[S]"] assms(1) by simp
  have b: "decodePackets (encodeSentence S @ 0 # encodeSentence S) = ([S, [], S], [])"
  proof -
    have "encodeSentence S @ 0 # encodeSentence S = concat (map encodeSentence [S, [], S])"
      by (simp add: encodeSentence_eq)
    then show ?thesis
      using decodePackets_sentences [of "[S, [], S]"] assms(1)
      by (simp del: concat.simps list.map)
  qed
  show ?thesis
    using a b readLength_encodeLength [OF assms(2)] length_encodeLength by simp
qed

theorem codec_round_trip_witness:
  "wordOk ''!re'' \<and> wordOk ''=name=Alpha'' \<and> (0x3FFF::nat) < 0x100000000
    \<and> decodePackets (encodeSentence [''!re'', ''=name=Alpha'']) = ([[''!re'', ''=name=Alpha'']], [])
    \<and> readLength (encodeLength 0x3FFF @ []) 0 = Some (0x3FFF, 2)
    \<and> length (encodeLength 0x3FFF) = 2"
  using codec_round_trip [of "[''!re'', ''=name=Alpha'']" "0x3FFF" "[]"]
  by (simp add: wordOk_def prefixLength_def)

text \<open>
  The claim as stated fails in two places. The empty string is a valid UTF-8 word, and
  its encoding is the terminator byte: the sentence \<open>["a", "", "b"]\<close> is decoded as
  the two sentences \<open>["a"]\<close> and \<open>["b"]\<close>. The length \<open>2^32\<close> is at least
  \<open>0x10000000\<close>, and its prefix \<open>f0 00 00 00 00\<close> is decoded as the length 0.
\<close>

theorem codec_round_trip_counterexample:
  "decodePackets (encodeSentence [''a'', '''', ''b'']) = ([[''a''], [''b'']], [])
   \<and> decodePackets (encodeSentence [''a'', '''', ''b'']) \<noteq> ([[''a'', '''', ''b'']], [])
   \<and> readLength (encodeLength 0x100000000 @ []) 0 = Some (0, 5)"
proof -
  have e: "encodeSentence [''a'', '''', ''b''] = concat (map encodeSentence [[''a''], [''b'']])"
    by (simp add: encodeSentence_eq encodeWord_def utf8_bytes_def encodeLength_def)
  have d: "decodePackets (encodeSentence [''a'', '''', ''b'']) = ([[''a''], [''b'']], [])"
    unfolding e by (rule decodePackets_sentences) (simp add: wordOk_def)
  have l: "readLength (encodeLength 0x100000000 @ []) 0 = Some (0, 5)"
    by (simp add: encodeLength_def readLength_def)
  show ?thesis using d l by simp
qed

section \<open>The queue discipline is an invariant\<close>

lemma fifo_inv_initial: "fifo_inv initial"
  by (simp add: fifo_inv_def initial_def)

lemma fifo_inv_destroyAll: "fifo_inv c \<Longrightarrow> fifo_inv (destroyAll c err)"
  by (auto simp: fifo_inv_def destroyAll_def comp_def)

lemma fifo_inv_login: "fifo_inv c \<Longrightarrow> fifo_inv (c\<lparr>login := p\<rparr>)"
  by (simp add: fifo_inv_def)

lemma fifo_inv_handleSentence: "fifo_inv c \<Longrightarrow> fifo_inv (handleSentence c sentence)"
proof (cases sentence)
  case Nil
  assume "fifo_inv c"
  then show ?thesis using Nil by (simp add: handleSentence_def)
next
  case (Cons t ws)
  assume inv: "fifo_inv c"
  show ?thesis
  proof (cases "loggedIn c")
    case False
    have "fifo_inv (c\<lparr>loggedIn := True, login := p\<rparr>)" for p
      using inv by (simp add: fifo_inv_def)
    then show ?thesis
      using False Cons inv
      by (simp add: handleSentence_def Let_def fifo_inv_destroyAll fifo_inv_login)
  next
    case True
    show ?thesis
    proof (cases "queue c")
      case Nil
      then show ?thesis using True Cons inv by (simp add: handleSentence_def)
    next
      case (Cons q rest)
      then show ?thesis using True \<open>sentence = t # ws\<close> inv
        by (auto simp: handleSentence_def Let_def fifo_inv_def)
    qed
  qed
qed

lemma fifo_inv_foldl: "fifo_inv c \<Longrightarrow> fifo_inv (foldl handleSentence c sentences)"
  by (induction sentences arbitrary: c) (simp_all add: fifo_inv_handleSentence)

lemma fifo_inv_onData: "fifo_inv c \<Longrightarrow> fifo_inv (onData c chunk)"
proof -
  assume inv: "fifo_inv c"
  have "fifo_inv (c\<lparr>buf := r\<rparr>)" for r using inv by (simp add: fifo_inv_def)
  then show ?thesis
    by (simp add: onData_def split: prod.split) (simp add: fifo_inv_foldl)
qed

lemma fifo_inv_write: "fifo_inv c \<Longrightarrow> fifo_inv (api_write c words)"
  by (auto simp: fifo_inv_def api_write_def)

lemma fifo_inv_step: "fifo_inv c \<Longrightarrow> fifo_inv (step opt c ev)"
proof (cases ev)
  case Connect
  assume "fifo_inv c"
  then show ?thesis using Connect by (simp add: sendLogin_def fifo_inv_def)
next
  case (Data chunk)
  assume "fifo_inv c"
  then show ?thesis using Data by (simp add: fifo_inv_onData)
next
  case Timeout
  assume "fifo_inv c"
  then show ?thesis using Timeout
    by (simp add: onTimeout_def Let_def fifo_inv_destroyAll fifo_inv_login)
next
  case (SockError err)
  assume "fifo_inv c"
  then show ?thesis using SockError
    by (simp add: onError_def fifo_inv_destroyAll fifo_inv_login)
next
  case SockClose
  assume inv: "fifo_inv c"
  have "fifo_inv (c\<lparr>onCloseCalls := n\<rparr>)" for n using inv by (simp add: fifo_inv_def)
  then show ?thesis using SockClose
    by (simp add: onClose_def Let_def fifo_inv_destroyAll)
next
  case (Write words)
  assume "fifo_inv c"
  then show ?thesis using Write by (simp add: fifo_inv_write)
next
  case Close
  assume "fifo_inv c"
  then show ?thesis using Close by (simp add: api_close_def fifo_inv_destroyAll)
qed

lemma fifo_inv_foldl_step: "fifo_inv c \<Longrightarrow> fifo_inv (foldl (step opt) c evs)"
  by (induction evs arbitrary: c) (simp_all add: fifo_inv_step)

lemma fifo_inv_run: "fifo_inv (run opt evs)"
  by (simp add: run_def fifo_inv_foldl_step fifo_inv_initial)

section \<open>Order of the responses\<close>

lemma decodePackets_one:
  "\<forall>w \<in> set S. wordOk w \<Longrightarrow> decodePackets (encodeSentence S) = ([S], [])"
  using decodePackets_sentences [of "[S]"] by simp

lemma decodePackets_two:
  "\<forall>w \<in> set S. wordOk w \<Longrightarrow> \<forall>w \<in> set T. wordOk w \<Longrightarrow>
   decodePackets (encodeSentence S @ encodeSentence T) = ([S, T], [])"
  using decodePackets_sentences [of "[S, T]"] by simp

lemma handleSentence_head:
  assumes "loggedIn c" "queue c = q # rest"
  shows "(queue (handleSentence c (t # ws)) = q\<lparr>accumulator := accumulator q @ [t # ws]\<rparr> # rest
          \<and> settled (handleSentence c (t # ws)) = settled c)
       \<or> (queue (handleSentence c (t # ws)) = rest
          \<and> (\<exists>r. settled (handleSentence c (t # ws)) = settled c @ [(pid q, r)]))"
  using assms by (simp add: handleSentence_def Let_def)

text \<open>
  Claim C2: on every connection, after any sequence of socket events and \<open>write\<close>
  calls (the replies cut into chunks in any way), the requests settled so far, in the
  order in which their callbacks were called, followed by the requests still queued, are
  exactly the requests \<open>0, 1, 2, ...\<close> in the order of their submission: responses are
  delivered in submission order. An inbound sentence handled after login with a
  non-empty queue goes to the oldest queued request only: it is appended to that
  request's accumulator, or it settles that request and removes it from the queue.
\<close>

theorem fifo_delivery_order:
  "map fst (settled (run opt evs)) @ map pid (queue (run opt evs)) = [0..<submitted (run opt evs)]
   \<and> (loggedIn c \<and> queue c = q # rest \<longrightarrow>
        (queue (handleSentence c (t # ws)) = q\<lparr>accumulator := accumulator q @ [t # ws]\<rparr> # rest
          \<and> settled (handleSentence c (t # ws)) = settled c)
       \<or> (queue (handleSentence c (t # ws)) = rest
          \<and> (\<exists>r. settled (handleSentence c (t # ws)) = settled c @ [(pid q, r)])))"
  using fifo_inv_run [of opt evs] handleSentence_head [of c q rest t ws]
  by (simp add: fifo_inv_def)

lemma ready2_eq:
  "ready2 = initial\<lparr>loggedIn := True, login := Fulfilled,
      queue := [\<lparr>pid = 0, accumulator = []\<rparr>, \<lparr>pid = 1, accumulator = []\<rparr>],
      submitted := 2,
      sent := [encodeSentence [''/login'', ''=name=admin'', ''=password=secret''],
               encodeSentence [''/a''], encodeSentence [''/b'']]\<rparr>"
  by (simp add: ready2_def run_def initial_def sendLogin_def onData_def decodePackets_one
      wordOk_def handleSentence_def settlePromise_def api_write_def opt0_def)

theorem fifo_delivery_order_witness:
  "loggedIn ready2
   \<and> queue ready2 = [\<lparr>pid = 0, accumulator = []\<rparr>, \<lparr>pid = 1, accumulator = []\<rparr>]
   \<and> queue (handleSentence ready2 [''!re'', ''=a=1''])
       = [\<lparr>pid = 0, accumulator = [[''!re'', ''=a=1'']]\<rparr>, \<lparr>pid = 1, accumulator = []\<rparr>]
   \<and> map fst (settled (run opt0 [Connect, Data (encodeSentence [''!done'']), Write [''/a''],
         Write [''/b''], Data (encodeSentence [''!done''] @ encodeSentence [''!done''])])) = [0, 1]"
proof -
  have r: "run opt0 [Connect, Data (encodeSentence [''!done'']), Write [''/a''],
         Write [''/b''], Data (encodeSentence [''!done''] @ encodeSentence [''!done''])]
       = onData ready2 (encodeSentence [''!done''] @ encodeSentence [''!done''])"
    by (simp add: ready2_def run_def)
  have q: "queue (onData ready2 (encodeSentence [''!done''] @ encodeSentence [''!done''])) = []"
    by (simp add: ready2_eq initial_def onData_def decodePackets_two wordOk_def handleSentence_def)
  have s: "submitted (onData ready2 (encodeSentence [''!done''] @ encodeSentence [''!done''])) = 2"
    by (simp add: ready2_eq initial_def onData_def decodePackets_two wordOk_def handleSentence_def)
  have u: "[0..<2] = [0, Suc 0]" by (simp add: upt_rec)
  show ?thesis
    using fifo_delivery_order [of opt0 "[Connect, Data (encodeSentence [''!done'']), Write [''/a''],
         Write [''/b''], Data (encodeSentence [''!done''] @ encodeSentence [''!done''])]"
         ready2 "\<lparr>pid = 0, accumulator = []\<rparr>" "[\<lparr>pid = 1, accumulator = []\<rparr>]" "''!re''" "[''=a=1'']"]
    by (simp add: r q s u) (simp add: ready2_eq initial_def handleSentence_def)
qed

section \<open>Trap replies\<close>

text \<open>
  Claim C6: a \<open>!trap\<close> or \<open>!fatal\<close> sentence handled with the request \<open>q\<close> at
  the head of the queue rejects exactly \<open>q\<close>, with the rest of the first accumulated
  word that starts with \<open>=message=\<close>, or with \<open>RouterOS error\<close> when there is none;
  nothing else of the connection changes (the other requests stay queued as they were and
  the connection is not destroyed). For the reply \<open>["!trap", "=message=invalid value"]\<close>
  the message is \<open>invalid value\<close>.
\<close>

theorem trap_rejects_head_only:
  assumes "loggedIn c" and "queue c = q # rest" and "t = ''!trap'' \<or> t = ''!fatal''"
  shows "handleSentence c (t # ws)
         = c\<lparr>queue := rest,
              settled := settled c @
                [(pid q, Rejected (messageOf (concat (accumulator q) @ t # ws) ''RouterOS error''))]\<rparr>
       \<and> messageOf ([''!trap'', ''=message=invalid value'']) ''RouterOS error'' = ''invalid value''
       \<and> messageOf [t] ''RouterOS error'' = ''RouterOS error''"
  using assms
  by (auto simp: handleSentence_def Let_def messageOf_def startsWith_def)

theorem trap_rejects_head_only_witness:
  "loggedIn ready2
   \<and> queue ready2 = [\<lparr>pid = 0, accumulator = []\<rparr>, \<lparr>pid = 1, accumulator = []\<rparr>]
   \<and> handleSentence ready2 [''!trap'', ''=message=invalid value'']
       = ready2\<lparr>queue := [\<lparr>pid = 1, accumulator = []\<rparr>],
                 settled := [(0, Rejected ''invalid value'')]\<rparr>
   \<and> destroyed (handleSentence ready2 [''!trap'', ''=message=invalid value'']) = False
   \<and> settled (foldl handleSentence ready2 [[''!trap'', ''=message=invalid value''], [''!done'']])
       = [(0, Rejected ''invalid value''), (1, Resolved [])]"
proof -
  have a: "loggedIn ready2" "queue ready2 = [\<lparr>pid = 0, accumulator = []\<rparr>, \<lparr>pid = 1, accumulator = []\<rparr>]"
    "settled ready2 = []" "destroyed ready2 = False"
    by (simp_all add: ready2_eq initial_def)
  have m: "messageOf [''!trap'', ''=message=invalid value''] ''RouterOS error'' = ''invalid value''"
    by (simp add: messageOf_def startsWith_def)
  have h: "handleSentence ready2 [''!trap'', ''=message=invalid value'']
       = ready2\<lparr>queue := [\<lparr>pid = 1, accumulator = []\<rparr>],
                 settled := [(0, Rejected ''invalid value'')]\<rparr>"
    using trap_rejects_head_only [of ready2 "\<lparr>pid = 0, accumulator = []\<rparr>"
        "[\<lparr>pid = 1, accumulator = []\<rparr>]" "''!trap''" "[''=message=invalid value'']"] a m
    by simp
  have d: "settled (handleSentence (ready2\<lparr>queue := [\<lparr>pid = 1, accumulator = []\<rparr>],
                 settled := [(0, Rejected ''invalid value'')]\<rparr>) [''!done''])
       = [(0, Rejected ''invalid value''), (1, Resolved [])]"
    using a by (simp add: handleSentence_def parseRows_def isRe_def)
  show ?thesis using a h d by simp
qed

section \<open>Row parsing\<close>

lemma index_of_append:
  "c \<notin> set k \<Longrightarrow> index_of c (k @ c # v) = Some (length k)"
  by (induction k) auto

lemma parseWord_attr:
  assumes "CHR ''='' \<notin> set k" "k \<noteq> ''__proto__''"
  shows "parseWord obj (m # k @ CHR ''='' # v) = obj(k \<mapsto> v)"
proof -
  have n: "nat (1 + int (length k)) = Suc (length k)" by simp
  show ?thesis
    using assms
    by (simp add: parseWord_def indexOf_def index_of_append slice_def setProp_def n)
qed

text \<open>
  Claim C7: a \<open>!done\<close> or \<open>!empty\<close> sentence handled with the request \<open>q\<close> at
  the head of the queue resolves \<open>q\<close> with the rows parsed from the accumulated
  \<open>!re\<close> sentences. A row is parsed from the words after the tag; an attribute word
  made of a marker character, a key without \<open>=\<close>, an \<open>=\<close> and a value sets the key
  to the value; and the sentence
  \<open>["!re", "=name=Alpha", "=allowed-address=10.0.0.2/32,fd00::2/128"]\<close> is parsed to
  \<open>{name: "Alpha", "allowed-address": "10.0.0.2/32,fd00::2/128"}\<close>.
\<close>

theorem rows_parsed_on_completion:
  assumes "loggedIn c" and "queue c = q # rest" and "t = ''!done'' \<or> t = ''!empty''"
    and "CHR ''='' \<notin> set k" and "k \<noteq> ''__proto__''"
  shows "handleSentence c (t # ws)
         = c\<lparr>queue := rest,
              settled := settled c @ [(pid q, Resolved (map parseRow (filter isRe (accumulator q))))]\<rparr>
       \<and> parseRow (tag # ws) = foldl parseWord Map.empty ws
       \<and> parseWord obj (m # k @ CHR ''='' # v) = obj(k \<mapsto> v)
       \<and> parseRow [''!re'', ''=name=Alpha'', ''=allowed-address=10.0.0.2/32,fd00::2/128'']
          = [''name'' \<mapsto> ''Alpha'', ''allowed-address'' \<mapsto> ''10.0.0.2/32,fd00::2/128'']"
proof -
  have a: "handleSentence c (t # ws)
         = c\<lparr>queue := rest,
              settled := settled c @ [(pid q, Resolved (map parseRow (filter isRe (accumulator q))))]\<rparr>"
    using assms(1-3) by (auto simp: handleSentence_def Let_def parseRows_def isRe_def)
  have b: "parseRow [''!re'', ''=name=Alpha'', ''=allowed-address=10.0.0.2/32,fd00::2/128'']
          = [''name'' \<mapsto> ''Alpha'', ''allowed-address'' \<mapsto> ''10.0.0.2/32,fd00::2/128'']"
    by (simp add: parseRow_def parseWord_def indexOf_def slice_def setProp_def)
  show ?thesis
    using a b parseWord_attr [OF assms(4,5)] by (simp add: parseRow_def)
qed

theorem rows_parsed_on_completion_witness:
  "loggedIn (handleSentence ready2 row1)
   \<and> queue (handleSentence ready2 row1)
       = [\<lparr>pid = 0, accumulator = [row1]\<rparr>, \<lparr>pid = 1, accumulator = []\<rparr>]
   \<and> CHR ''='' \<notin> set ''name'' \<and> ''name'' \<noteq> ''__proto__''
   \<and> settled (handleSentence (handleSentence ready2 row1) [''!done''])
       = [(0, Resolved [[''name'' \<mapsto> ''Alpha'',
                         ''allowed-address'' \<mapsto> ''10.0.0.2/32,fd00::2/128'']])]
   \<and> queue (handleSentence (handleSentence ready2 row1) [''!done''])
       = [\<lparr>pid = 1, accumulator = []\<rparr>]
   \<and> parseWord Map.empty ''=name=Alpha'' = [''name'' \<mapsto> ''Alpha'']"
proof -
  have a: "loggedIn (handleSentence ready2 row1)"
    "queue (handleSentence ready2 row1)
       = [\<lparr>pid = 0, accumulator = [row1]\<rparr>, \<lparr>pid = 1, accumulator = []\<rparr>]"
    "settled (handleSentence ready2 row1) = []"
    by (simp_all add: ready2_eq initial_def handleSentence_def row1_def)
  have r: "isRe row1" by (simp add: isRe_def row1_def)
  have k: "CHR ''='' \<notin> set ''name''" "''name'' \<noteq> ''__proto__''" by simp_all
  have w: "''=name=Alpha'' = CHR ''='' # ''name'' @ CHR ''='' # ''Alpha''" by simp
  show ?thesis
    using rows_parsed_on_completion [of "handleSentence ready2 row1"
        "\<lparr>pid = 0, accumulator = [row1]\<rparr>" "[\<lparr>pid = 1, accumulator = []\<rparr>]" "''!done''"
        "''name''" "[]" "''!re''" "Map.empty" "CHR ''=''" "''Alpha''"] a r k
    by (simp add: row1_def)
qed

section \<open>Settling requests at most once\<close>

lemma destroyAll_idem: "destroyAll (destroyAll c err) err' = destroyAll c err"
  by (simp add: destroyAll_def)

lemma destroyAll_reachable:
  assumes "fifo_inv c"
  shows "queue (destroyAll c err) = [] \<and> destroyed (destroyAll c err)
       \<and> settled (destroyAll c err) = settled c @ map (\<lambda>item. (pid item, Rejected err)) (queue c)"
  using assms by (auto simp: destroyAll_def fifo_inv_def)

lemma fifo_inv_distinct:
  assumes "fifo_inv c"
  shows "distinct (map fst (settled c)) \<and> distinct (map pid (queue c))
       \<and> set (map fst (settled c)) \<inter> set (map pid (queue c)) = {}"
proof -
  have "distinct (map fst (settled c) @ map pid (queue c))"
    using assms by (simp add: fifo_inv_def)
  then show ?thesis by auto
qed

text \<open>
  Claim C10: after any sequence of socket events and \<open>write\<close> calls no request has
  been settled twice, and no settled request is still in the queue; \<open>destroyAll\<close>
  rejects every queued request once, empties the queue and sets the destroyed flag, and
  a second call changes nothing; a \<open>write\<close> on a destroyed connection is rejected at
  once and is not put in the queue.
\<close>

theorem settled_at_most_once:
  "distinct (map fst (settled (run opt evs)))
   \<and> distinct (map pid (queue (run opt evs)))
   \<and> set (map fst (settled (run opt evs))) \<inter> set (map pid (queue (run opt evs))) = {}
   \<and> queue (destroyAll (run opt evs) err) = []
   \<and> destroyed (destroyAll (run opt evs) err)
   \<and> settled (destroyAll (run opt evs) err)
       = settled (run opt evs) @ map (\<lambda>item. (pid item, Rejected err)) (queue (run opt evs))
   \<and> destroyAll (destroyAll (run opt evs) err) err' = destroyAll (run opt evs) err
   \<and> (destroyed (run opt evs) \<longrightarrow>
        api_write (run opt evs) words
        = (run opt evs)\<lparr>settled := settled (run opt evs) @
              [(submitted (run opt evs), Rejected ''Connection already closed'')],
            submitted := submitted (run opt evs) + 1\<rparr>)"
  using fifo_inv_distinct [OF fifo_inv_run [of opt evs]]
    destroyAll_reachable [OF fifo_inv_run [of opt evs], of err]
  by (simp add: destroyAll_idem api_write_def)

lemma timedOut_eq:
  "timedOut = ready2\<lparr>destroyed := True, sockDestroyed := True, queue := [],
     settled := [(0, Rejected ''Connection timeout ke 10.0.0.1:8728''),
                 (1, Rejected ''Connection timeout ke 10.0.0.1:8728'')]\<rparr>"
proof -
  have "timedOut = onTimeout opt0 ready2"
    by (simp add: timedOut_def ready2_def run_def)
  then show ?thesis
    by (simp add: ready2_eq initial_def onTimeout_def Let_def destroyAll_def opt0_def)
qed

theorem settled_at_most_once_witness:
  "destroyed timedOut
   \<and> settled timedOut = [(0, Rejected ''Connection timeout ke 10.0.0.1:8728''),
                          (1, Rejected ''Connection timeout ke 10.0.0.1:8728'')]
   \<and> queue timedOut = []
   \<and> destroyAll timedOut ''Closed by caller'' = timedOut
   \<and> settled (api_write timedOut [''/c''])
       = [(0, Rejected ''Connection timeout ke 10.0.0.1:8728''),
          (1, Rejected ''Connection timeout ke 10.0.0.1:8728''),
          (2, Rejected ''Connection already closed'')]
   \<and> queue (api_write timedOut [''/c'']) = []
   \<and> sent (api_write timedOut [''/c'']) = sent timedOut"
proof -
  have a: "destroyed timedOut" "queue timedOut = []" "submitted timedOut = 2"
    "settled timedOut = [(0, Rejected ''Connection timeout ke 10.0.0.1:8728''),
                          (1, Rejected ''Connection timeout ke 10.0.0.1:8728'')]"
    by (simp_all add: timedOut_eq ready2_eq initial_def)
  have d: "destroyAll timedOut ''Closed by caller'' = timedOut"
    using a by (simp add: destroyAll_def)
  show ?thesis
    using settled_at_most_once [of opt0 "[Connect, Data (encodeSentence [''!done'']), Write [''/a''],
        Write [''/b''], Timeout]" "''Closed by caller''" "''x''" "[''/c'']"] a d
    by (simp add: timedOut_def [symmetric])
qed

section \<open>Bounded reconnection\<close>

lemma connect_success:
  assumes "pool st key = None"
    and "attempt + j \<le> maxRetries cfg"
    and "\<forall>k<j. ros (attempts st + k) = Inl (e k)"
    and "ros (attempts st + j) = Inr api"
  shows "connect cfg h key ros st attempt
       = (Inr api, st\<lparr>pool := (pool st)(key \<mapsto> api),
                      slept := slept st @ replicate j (retryDelay cfg),
                      attempts := attempts st + j + 1\<rparr>)"
  using assms
proof (induction j arbitrary: st attempt e)
  case 0
  then show ?case by (subst connect.simps) simp
next
  case (Suc j)
  let ?st = "st\<lparr>pool := (pool st)(key := None), attempts := attempts st + 1,
                slept := slept st @ [retryDelay cfg]\<rparr>"
  have f: "ros (attempts st) = Inl (e 0)" using Suc.prems(3) by (metis add.right_neutral zero_less_Suc)
  have lt: "attempt < maxRetries cfg" using Suc.prems(2) by simp
  have ih: "connect cfg h key ros ?st (attempt + 1)
       = (Inr api, ?st\<lparr>pool := (pool ?st)(key \<mapsto> api),
                      slept := slept ?st @ replicate j (retryDelay cfg),
                      attempts := attempts ?st + j + 1\<rparr>)"
  proof (rule Suc.IH [where e = "\<lambda>k. e (Suc k)"])
    show "pool ?st key = None" by simp
    show "attempt + 1 + j \<le> maxRetries cfg" using Suc.prems(2) by simp
    show "\<forall>k<j. ros (attempts ?st + k) = Inl (e (Suc k))" using Suc.prems(3) by auto
    show "ros (attempts ?st + j) = Inr api" using Suc.prems(4) by simp
  qed
  show ?case
    using Suc.prems(1) f lt ih
    by (subst connect.simps) (simp add: Let_def replicate_append_same)
qed

lemma connect_exhausted:
  assumes "pool st key = None"
    and "attempt + j = maxRetries cfg"
    and "\<forall>k\<le>j. ros (attempts st + k) = Inl (e k)"
  shows "connect cfg h key ros st attempt
       = (Inl (''Gagal konek ke router '' @ h @ '': '' @ e j),
          st\<lparr>slept := slept st @ replicate j (retryDelay cfg),
             attempts := attempts st + j + 1\<rparr>)"
  using assms
proof (induction j arbitrary: st attempt e)
  case 0
  then have "(pool st)(key := None) = pool st" by auto
  then show ?case using 0 by (subst connect.simps) simp
next
  case (Suc j)
  let ?st = "st\<lparr>pool := (pool st)(key := None), attempts := attempts st + 1,
                slept := slept st @ [retryDelay cfg]\<rparr>"
  have f: "ros (attempts st) = Inl (e 0)" using Suc.prems(3) by (metis add.right_neutral le0)
  have lt: "attempt < maxRetries cfg" using Suc.prems(2) by simp
  have p: "(pool st)(key := None) = pool st" using Suc.prems(1) by auto
  have ih: "connect cfg h key ros ?st (attempt + 1)
       = (Inl (''Gagal konek ke router '' @ h @ '': '' @ e (Suc j)),
          ?st\<lparr>slept := slept ?st @ replicate j (retryDelay cfg),
              attempts := attempts ?st + j + 1\<rparr>)"
  proof (rule Suc.IH [where e = "\<lambda>k. e (Suc k)"])
    show "pool ?st key = None" by simp
    show "attempt + 1 + j = maxRetries cfg" using Suc.prems(2) by simp
    show "\<forall>k\<le>j. ros (attempts ?st + k) = Inl (e (Suc k))" using Suc.prems(3) by auto
  qed
  show ?case
    using Suc.prems(1) f lt ih p
    by (subst connect.simps) (simp add: Let_def replicate_append_same)
qed

text \<open>
  Claim C4, as the code has it: \<open>maxRetries\<close> bounds the number of connection
  attempts, the first one included. Started with no pool entry for the router,
  \<open>connect\<close> returns the connection of the first successful attempt and stores it in
  the pool when at most \<open>maxRetries - 1\<close> attempts failed before it, having slept the
  fixed delay once after each failure; when \<open>maxRetries\<close> attempts in a row fail it
  throws the last error wrapped with the host of the router, leaves no pool entry, and
  has made exactly \<open>maxRetries\<close> attempts.
\<close>

theorem connect_attempt_bound:
  "(pool st key = None \<and> 1 + j \<le> maxRetries cfg
      \<and> (\<forall>k<j. ros (attempts st + k) = Inl (e k)) \<and> ros (attempts st + j) = Inr api
    \<longrightarrow> connect cfg h key ros st 1
        = (Inr api, st\<lparr>pool := (pool st)(key \<mapsto> api),
                       slept := slept st @ replicate j (retryDelay cfg),
                       attempts := attempts st + j + 1\<rparr>))
   \<and> (pool st key = None \<and> 1 + j = maxRetries cfg
      \<and> (\<forall>k\<le>j. ros (attempts st + k) = Inl (e k))
    \<longrightarrow> connect cfg h key ros st 1
        = (Inl (''Gagal konek ke router '' @ h @ '': '' @ e j),
           st\<lparr>slept := slept st @ replicate j (retryDelay cfg),
              attempts := attempts st + j + 1\<rparr>)
       \<and> pool (snd (connect cfg h key ros st 1)) key = None
       \<and> attempts (snd (connect cfg h key ros st 1)) = attempts st + maxRetries cfg)"
proof -
  have a: "connect cfg h key ros st 1
        = (Inr api, st\<lparr>pool := (pool st)(key \<mapsto> api),
                       slept := slept st @ replicate j (retryDelay cfg),
                       attempts := attempts st + j + 1\<rparr>)"
    if "pool st key = None" "1 + j \<le> maxRetries cfg"
      "\<forall>k<j. ros (attempts st + k) = Inl (e k)" "ros (attempts st + j) = Inr api"
    using connect_success [OF that] .
  have b: "connect cfg h key ros st 1
        = (Inl (''Gagal konek ke router '' @ h @ '': '' @ e j),
           st\<lparr>slept := slept st @ replicate j (retryDelay cfg),
              attempts := attempts st + j + 1\<rparr>)"
    if "pool st key = None" "1 + j = maxRetries cfg" "\<forall>k\<le>j. ros (attempts st + k) = Inl (e k)"
    using connect_exhausted [OF that] .
  show ?thesis
  proof (intro conjI impI)
    assume h: "pool st key = None \<and> 1 + j \<le> maxRetries cfg
      \<and> (\<forall>k<j. ros (attempts st + k) = Inl (e k)) \<and> ros (attempts st + j) = Inr api"
    then show "connect cfg h key ros st 1
        = (Inr api, st\<lparr>pool := (pool st)(key \<mapsto> api),
                       slept := slept st @ replicate j (retryDelay cfg),
                       attempts := attempts st + j + 1\<rparr>)"
      using a by blast
  next
    assume h: "pool st key = None \<and> 1 + j = maxRetries cfg
      \<and> (\<forall>k\<le>j. ros (attempts st + k) = Inl (e k))"
    then show "connect cfg h key ros st 1
        = (Inl (''Gagal konek ke router '' @ h @ '': '' @ e j),
           st\<lparr>slept := slept st @ replicate j (retryDelay cfg),
              attempts := attempts st + j + 1\<rparr>)"
      using b by blast
    then show "pool (snd (connect cfg h key ros st 1)) key = None" using h by simp
    from \<open>connect cfg h key ros st 1 = _\<close>
    show "attempts (snd (connect cfg h key ros st 1)) = attempts st + maxRetries cfg"
      using h by simp
  qed
qed

theorem connect_attempt_bound_witness:
  "pool emptyPool ''srv_0'' = None
   \<and> connect cfg3 ''r1'' ''srv_0'' (\<lambda>k. if k < 2 then Inl ''ECONNREFUSED'' else Inr 7) emptyPool 1
      = (Inr 7, \<lparr>pool = [''srv_0'' \<mapsto> 7], slept = [1000, 1000], attempts = 3\<rparr>)
   \<and> connect cfg3 ''r1'' ''srv_0'' (\<lambda>k. Inl ''ECONNREFUSED'') emptyPool 1
      = (Inl ''Gagal konek ke router r1: ECONNREFUSED'',
         \<lparr>pool = Map.empty, slept = [1000, 1000], attempts = 3\<rparr>)"
proof -
  have r: "replicate 2 (1000::nat) = [1000, 1000]" by (simp add: numeral_2_eq_2)
  show ?thesis
    using connect_attempt_bound [of emptyPool "''srv_0''" 2 cfg3
        "\<lambda>k. if k < 2 then Inl ''ECONNREFUSED'' else Inr 7" "\<lambda>k. ''ECONNREFUSED''" 7 "''r1''"]
      connect_attempt_bound [of emptyPool "''srv_0''" 2 cfg3
        "\<lambda>k. Inl ''ECONNREFUSED''" "\<lambda>k. ''ECONNREFUSED''" 7 "''r1''"]
    by (simp add: emptyPool_def cfg3_def r)
qed

text \<open>
  With \<open>maxRetries = 3\<close>, three failed attempts are not followed by a fourth one:
  where the fourth call of \<open>rosConnect\<close> would succeed, \<open>connect\<close> has already
  thrown after the third failure, with three attempts made and no pool entry.
\<close>

theorem connect_fourth_attempt_counterexample:
  "connect cfg3 ''r1'' ''srv_0'' (\<lambda>k. if k < 3 then Inl ''ECONNREFUSED'' else Inr 7) emptyPool 1
      = (Inl ''Gagal konek ke router r1: ECONNREFUSED'',
         \<lparr>pool = Map.empty, slept = [1000, 1000], attempts = 3\<rparr>)"
proof -
  have r: "replicate 2 (1000::nat) = [1000, 1000]" by (simp add: numeral_2_eq_2)
  have "\<forall>k\<le>2. (\<lambda>k. if k < 3 then Inl ''ECONNREFUSED'' else Inr (7::nat)) (attempts emptyPool + k)
       = Inl ((\<lambda>k. ''ECONNREFUSED'') k)"
    by (simp add: emptyPool_def)
  then show ?thesis
    using connect_exhausted [of emptyPool "''srv_0''" 1 2 cfg3
        "\<lambda>k. if k < 3 then Inl ''ECONNREFUSED'' else Inr 7" "\<lambda>k. ''ECONNREFUSED''" "''r1''"]
    by (simp add: emptyPool_def cfg3_def r)
qed

section \<open>Callers of \<open>connect\<close> running interleaved\<close>

text \<open>
  Claim C5, as the code has it: the pool holds at most one connection for a router id,
  and \<open>connect\<close> starts no connection attempt when it finds a connection for the id
  in the pool, on its call and again after each retry delay: it returns the pooled
  connection. The pool entry is the only gate: a caller that finds no entry starts its
  own attempt also while the attempts of other callers for the same id are in flight,
  and those stay in flight.
\<close>

theorem connect_reuses_pooled_connection:
  "(entries sys key = Some api \<longrightarrow>
      poolStep cfg h key sys (Call c) = sys\<lparr>tasks := (tasks sys)(c \<mapsto> Returned (Inr api))\<rparr>
      \<and> \<not> awaiting (poolStep cfg h key sys (Call c)) c)
   \<and> (entries sys key = Some api \<and> tasks sys c = Some (Sleeping n) \<longrightarrow>
      poolStep cfg h key sys (Woken c) = sys\<lparr>tasks := (tasks sys)(c \<mapsto> Returned (Inr api))\<rparr>
      \<and> \<not> awaiting (poolStep cfg h key sys (Woken c)) c)
   \<and> (entries sys key = None \<and> awaiting sys c' \<longrightarrow>
      awaiting (poolStep cfg h key sys (Call c)) c
      \<and> awaiting (poolStep cfg h key sys (Call c)) c'
      \<and> entries (poolStep cfg h key sys (Call c)) key = None)"
  by (auto simp: connectEnter_def awaiting_def split: option.splits task.splits)

lemma pooled_eq:
  "pooled = \<lparr>entries = [''srv_0'' \<mapsto> 7], tasks = [0 \<mapsto> Returned (Inr 7)]\<rparr>"
  by (simp add: pooled_def poolRun_def connectEnter_def)

lemma connecting_eq:
  "connecting = \<lparr>entries = Map.empty, tasks = [0 \<mapsto> AwaitingRos 1]\<rparr>"
  by (simp add: connecting_def poolRun_def connectEnter_def)

theorem connect_reuses_pooled_connection_witness:
  "entries pooled ''srv_0'' = Some 7
   \<and> tasks (poolStep cfg3 ''r1'' ''srv_0'' pooled (Call 1)) 1 = Some (Returned (Inr 7))
   \<and> \<not> awaiting (poolStep cfg3 ''r1'' ''srv_0'' pooled (Call 1)) 1
   \<and> entries connecting ''srv_0'' = None
   \<and> awaiting connecting 0
   \<and> awaiting (poolStep cfg3 ''r1'' ''srv_0'' connecting (Call 1)) 0
   \<and> awaiting (poolStep cfg3 ''r1'' ''srv_0'' connecting (Call 1)) 1"
proof -
  have a: "entries pooled ''srv_0'' = Some 7" by (simp add: pooled_eq)
  have b: "entries connecting ''srv_0'' = None" "awaiting connecting 0"
    by (simp_all add: connecting_eq awaiting_def)
  show ?thesis
    using connect_reuses_pooled_connection [of pooled "''srv_0''" 7 cfg3 "''r1''" 1 0 0]
      connect_reuses_pooled_connection [of connecting "''srv_0''" 7 cfg3 "''r1''" 1 0 0]
      a b
    by (simp add: pooled_eq awaiting_def connectEnter_def)
qed

text \<open>
  Two callers asking for the same router while no connection is stored both have an
  attempt in flight; when both attempts succeed the two callers hold two different live
  connections, and the pool keeps the one stored last.
\<close>

theorem two_connect_attempts_counterexample:
  "awaiting (poolRun cfg3 ''r1'' ''srv_0'' [Call 0, Call 1]) 0
   \<and> awaiting (poolRun cfg3 ''r1'' ''srv_0'' [Call 0, Call 1]) 1
   \<and> poolRun cfg3 ''r1'' ''srv_0'' [Call 0, Call 1, RosSettled 0 (Inr 7), RosSettled 1 (Inr 8)]
      = \<lparr>entries = [''srv_0'' \<mapsto> 8],
         tasks = [0 \<mapsto> Returned (Inr 7), 1 \<mapsto> Returned (Inr (8::nat))]\<rparr>"
  by (simp add: poolRun_def connectEnter_def awaiting_def)

section \<open>Fingerprint pinning and the certificate chain\<close>

lemma run_failed_handshake:
  "run opt [SockError err, SockClose]
   = initial\<lparr>login := Failed err, onCloseCalls := 1\<rparr>"
  by (simp add: run_def initial_def onError_def onClose_def settlePromise_def)

lemma transport_chain_error:
  assumes "useTls opt" and "truthy (caFingerprint opt)" and "verifyError cert = Some e"
  shows "transport sha256hex toLowerCase opt cert = [SockError e, SockClose]"
  using assms by (simp add: transport_def rejectUnauthorized_def)

lemma transport_mismatch:
  assumes "useTls opt" and "caFingerprint opt = Some fingerprint" and "fingerprint \<noteq> []"
    and "verifyError cert = None"
    and "sha256hex (raw cert) \<noteq> wantFingerprint toLowerCase fingerprint"
  shows "transport sha256hex toLowerCase opt cert
         = [SockError (''TLS fingerprint mismatch: got '' @ sha256hex (raw cert)
                        @ '', want '' @ wantFingerprint toLowerCase fingerprint), SockClose]"
  using assms
  by (simp add: transport_def rejectUnauthorized_def truthy_def checkServerIdentity_def Let_def)

lemma transport_match:
  assumes "useTls opt" and "caFingerprint opt = Some fingerprint" and "fingerprint \<noteq> []"
    and "verifyError cert = None"
    and "sha256hex (raw cert) = wantFingerprint toLowerCase fingerprint"
  shows "transport sha256hex toLowerCase opt cert = [Connect]"
  using assms
  by (simp add: transport_def checkServerIdentity_def Let_def)

lemma char_of_lower:
  "char_of (97::nat) = CHR ''a''" "char_of (98::nat) = CHR ''b''" "char_of (99::nat) = CHR ''c''"
  by (simp_all add: char_of_def bit_0)

lemma stripSeparators_optTls: "stripSeparators ''AA:BB 0C'' = ''AABB0C''"
  by (simp add: stripSeparators.simps separatorLength_def isSpace_def)

lemma wantFingerprint_optTls: "wantFingerprint asciiLowerCase ''AA:BB 0C'' = ''aabb0c''"
  by (simp add: wantFingerprint_def stripSeparators_optTls asciiLowerCase_def char_of_lower)

text \<open>
  Claim C8 (with a configured fingerprint the handshake computes the SHA-256 digest of
  the certificate of the peer and compares it with the configured value, and any
  mismatch fails the handshake with a dedicated error before the login sentence is
  sent). The code sets \<open>rejectUnauthorized\<close> whenever a fingerprint is configured, so
  the platform validates the certificate chain before it calls the callback. For the
  self-signed certificate of a router, with the fingerprint \<open>AA:BB 0C\<close> configured
  and no authority, the socket is destroyed with the error \<open>self-signed certificate\<close>
  whatever the digest is: no digest is computed, a mismatch is not reported by the
  dedicated error, and a matching fingerprint is refused in the same way. Only for a
  certificate whose chain the platform verifies does the callback decide: a mismatch
  gives the error \<open>TLS fingerprint mismatch\<close>, a match lets the login sentence be
  written. The login sentence is written in none of the failing cases.
\<close>

theorem self_signed_certificate_preempts_fingerprint:
  "transport sha256hex toLowerCase optTls selfSigned
     = [SockError ''self-signed certificate'', SockClose]
   \<and> login (run optTls (transport sha256hex toLowerCase optTls selfSigned))
     = Failed ''self-signed certificate''
   \<and> sent (run optTls (transport sha256hex toLowerCase optTls selfSigned)) = []
   \<and> transport (\<lambda>der. ''aabb0d'') asciiLowerCase optTls trusted
     = [SockError ''TLS fingerprint mismatch: got aabb0d, want aabb0c'', SockClose]
   \<and> login (run optTls (transport (\<lambda>der. ''aabb0d'') asciiLowerCase optTls trusted))
     = Failed ''TLS fingerprint mismatch: got aabb0d, want aabb0c''
   \<and> sent (run optTls (transport (\<lambda>der. ''aabb0d'') asciiLowerCase optTls trusted)) = []
   \<and> transport (\<lambda>der. ''aabb0c'') asciiLowerCase optTls trusted = [Connect]
   \<and> sent (run optTls (transport (\<lambda>der. ''aabb0c'') asciiLowerCase optTls trusted))
     = [encodeSentence [''/login'', ''=name=admin'', ''=password=secret'']]"
proof -
  have o: "useTls optTls" "caFingerprint optTls = Some ''AA:BB 0C''"
    "truthy (caFingerprint optTls)"
    by (simp_all add: optTls_def truthy_def)
  have s: "transport sha256hex toLowerCase optTls selfSigned
     = [SockError ''self-signed certificate'', SockClose]"
    by (rule transport_chain_error [OF o(1) o(3)]) (simp add: selfSigned_def)
  have m: "transport (\<lambda>der. ''aabb0d'') asciiLowerCase optTls trusted
     = [SockError ''TLS fingerprint mismatch: got aabb0d, want aabb0c'', SockClose]"
    using transport_mismatch [OF o(1) o(2), of trusted "\<lambda>der. ''aabb0d''" asciiLowerCase]
    by (simp add: trusted_def wantFingerprint_optTls)
  have c: "transport (\<lambda>der. ''aabb0c'') asciiLowerCase optTls trusted = [Connect]"
    using transport_match [OF o(1) o(2), of trusted "\<lambda>der. ''aabb0c''" asciiLowerCase]
    by (simp add: trusted_def wantFingerprint_optTls)
  have l: "sent (run optTls [Connect])
     = [encodeSentence [''/login'', ''=name=admin'', ''=password=secret'']]"
    by (simp add: run_def sendLogin_def initial_def optTls_def)
  show ?thesis
    unfolding s m c using l by (simp add: run_failed_handshake initial_def)
qed

section \<open>The private key in the comment\<close>

lemma parseRow_comment:
  "parseRow [''!re'', ''=comment='' @ c] ''comment'' = Some c"
proof -
  have "parseWord Map.empty (CHR ''='' # ''comment'' @ CHR ''='' # c) = [''comment'' \<mapsto> c]"
    by (rule parseWord_attr) simp_all
  then show ?thesis by (simp add: parseRow_def)
qed

lemma addPeer_comment:
  assumes "addPeer JSON_stringify wgInterface now nm v4 v6 pub pk = Inr ws"
  shows "last ws = ''=comment='' @ JSON_stringify (JObject [(''privkey'', JString pk), (''created_at'', JString now)])"
  using assms by (auto simp: addPeer_def Let_def split: if_splits)

text \<open>
  Claim C9: the last word of the sentence that \<open>addPeer\<close> writes is the attribute
  \<open>comment\<close> with the JSON text of \<open>{"privkey": privateKey, "created_at": now}\<close>;
  \<open>getPeers\<close> reports, for a row carrying that comment, the stored private key, and
  for a row whose comment is absent, empty or not valid JSON, a null private key. The
  platform's JSON functions are assumed to read back the object they wrote and to read
  \<open>{}\<close> as the empty object.
\<close>

theorem privkey_stored_in_comment:
  assumes "JSON_parse ''{}'' = Some (JObject [])"
    and "JSON_parse (JSON_stringify (JObject [(''privkey'', JString pk), (''created_at'', JString now)]))
         = Some (JObject [(''privkey'', JString pk), (''created_at'', JString now)])"
    and "JSON_stringify (JObject [(''privkey'', JString pk), (''created_at'', JString now)]) \<noteq> []"
    and "addPeer JSON_stringify wgInterface now nm v4 v6 pub pk = Inr ws"
    and "other ''comment'' = None \<or> other ''comment'' = Some []
         \<or> (\<exists>c. other ''comment'' = Some c \<and> JSON_parse c = None)"
  shows "last ws = ''=comment='' @ JSON_stringify (JObject [(''privkey'', JString pk), (''created_at'', JString now)])
       \<and> map privkey (getPeers JSON_parse [parseRow [''!re'', last ws], other])
          = [Some (JString pk), None]"
proof -
  let ?c = "JSON_stringify (JObject [(''privkey'', JString pk), (''created_at'', JString now)])"
  have l: "last ws = ''=comment='' @ ?c" by (rule addPeer_comment [OF assms(4)])
  have r: "parseRow [''!re'', last ws] ''comment'' = Some ?c"
    unfolding l by (rule parseRow_comment)
  have a: "privkey (parsePeer JSON_parse (parseRow [''!re'', last ws])) = Some (JString pk)"
    using r assms(2,3) by (simp add: parsePeer_def Let_def parsePrivkey_def)
  have b: "privkey (parsePeer JSON_parse other) = None"
    using assms(1,5) by (auto simp: parsePeer_def Let_def parsePrivkey_def)
  show ?thesis using l a b by (simp add: getPeers_def)
qed

theorem privkey_stored_in_comment_witness:
  "parse0 ''{}'' = Some (JObject [])
   \<and> parse0 (stringify0 commentObj) = Some commentObj
   \<and> stringify0 commentObj \<noteq> []
   \<and> addPeer stringify0 ''wireguard1'' ''2026-01-01T00:00:00.000Z'' '' Alpha '' ''10.0.0.2''
        ''fd00::2'' ''cHVi'' ''cHJpdg==''
      = Inr [''/interface/wireguard/peers/add'', ''=interface=wireguard1'', ''=name=Alpha'',
             ''=public-key=cHVi'', ''=allowed-address=10.0.0.2/32,fd00::2/128'',
             ''=comment='' @ commentText]
   \<and> map privkey (getPeers parse0
        [parseRow [''!re'', ''=comment='' @ commentText],
         [''name'' \<mapsto> ''Manual'', ''comment'' \<mapsto> ''made in winbox'']])
      = [Some (JString ''cHJpdg==''), None]"
proof -
  have t: "commentText \<noteq> ''{}''" "commentText \<noteq> []" "''made in winbox'' \<noteq> commentText"
    by (simp_all add: commentText_def)
  have p: "parse0 ''{}'' = Some (JObject [])" "parse0 (stringify0 commentObj) = Some commentObj"
    "stringify0 commentObj \<noteq> []" "stringify0 commentObj = commentText"
    "parse0 ''made in winbox'' = None"
    using t by (simp_all add: parse0_def stringify0_def)
  have tr: "trim '' Alpha '' = ''Alpha''" "trim ''10.0.0.2'' = ''10.0.0.2''"
    "trim ''fd00::2'' = ''fd00::2''" "trim ''cHVi'' = ''cHVi''"
    by (simp_all add: trim_def isSpace_def)
  have q: "isDottedQuad ''10.0.0.2''"
    by (simp add: isDottedQuad_def isDigit_def)
  have a: "addPeer stringify0 ''wireguard1'' ''2026-01-01T00:00:00.000Z'' '' Alpha '' ''10.0.0.2''
        ''fd00::2'' ''cHVi'' ''cHJpdg==''
      = Inr [''/interface/wireguard/peers/add'', ''=interface=wireguard1'', ''=name=Alpha'',
             ''=public-key=cHVi'', ''=allowed-address=10.0.0.2/32,fd00::2/128'',
             ''=comment='' @ commentText]"
    using p(4) by (simp add: addPeer_def tr q Let_def commentObj_def)
  show ?thesis
    using privkey_stored_in_comment [of parse0 stringify0 "''cHJpdg==''" "''2026-01-01T00:00:00.000Z''"
        "''wireguard1''" "'' Alpha ''" "''10.0.0.2''" "''fd00::2''" "''cHVi''"
        "[''/interface/wireguard/peers/add'', ''=interface=wireguard1'', ''=name=Alpha'',
             ''=public-key=cHVi'', ''=allowed-address=10.0.0.2/32,fd00::2/128'',
             ''=comment='' @ commentText]"
        "[''name'' \<mapsto> ''Manual'', ''comment'' \<mapsto> ''made in winbox'']"]
      p a
    by (auto simp add: commentObj_def)
qed

end
